theory Spec2Isabelle
  imports Main "HOL-Library.Sublist" "HOL-Library.Extended_Nat" "HOL-Library.Word"
begin

section \<open>JavaScript string primitives used by the stack-trace utilities\<close>

text \<open>
  Strings are lists of characters. An index is an \<open>int\<close>, because \<open>indexOf\<close> answers
  \<open>-1\<close> when the character does not occur.
\<close>

fun indexOf_from :: "char \<Rightarrow> string \<Rightarrow> int \<Rightarrow> int" where
  "indexOf_from c [] i = - 1"
| "indexOf_from c (x # xs) i = (if x = c then i else indexOf_from c xs (i + 1))"

definition indexOf :: "string \<Rightarrow> char \<Rightarrow> int" where
  "indexOf s c = indexOf_from c s 0"

text \<open>
  \<open>s.slice(b, e)\<close> and \<open>s.substring(b)\<close>, for the non-negative indices the sources pass
  (a \<open>b\<close> beyond the end gives the empty string, as in JavaScript).
\<close>

definition slice :: "string \<Rightarrow> int \<Rightarrow> int \<Rightarrow> string" where
  "slice s b e = take (nat e - nat b) (drop (nat b) s)"

definition substring :: "string \<Rightarrow> int \<Rightarrow> string" where
  "substring s b = drop (nat b) s"

definition startsWith :: "string \<Rightarrow> string \<Rightarrow> bool" where
  "startsWith s p = prefix p s"

definition includes_str :: "string \<Rightarrow> string \<Rightarrow> bool" where
  "includes_str s p = sublist p s"

text \<open>
  \<open>s.split(c)\<close> on a one-character separator and \<open>lines.join(sep)\<close>. The split of the
  empty string is the list holding the empty string.
\<close>

fun split_str :: "string \<Rightarrow> char \<Rightarrow> string list" where
  "split_str [] c = [[]]"
| "split_str (x # xs) c =
     (if x = c then [] # split_str xs c
      else (case split_str xs c of [] \<Rightarrow> [[x]] | l # ls \<Rightarrow> (x # l) # ls))"

fun join_str :: "string list \<Rightarrow> string \<Rightarrow> string" where
  "join_str [] sep = []"
| "join_str [l] sep = l"
| "join_str (l # ls) sep = l @ sep @ join_str ls sep"

definition NL :: char where
  "NL = CHR 0x0A"

section \<open>splitErrorMessage\<close>

record name_message =
  name :: string
  message :: string

definition splitErrorMessage :: "string \<Rightarrow> name_message" where
  "splitErrorMessage msg =
     (let separationIdx = indexOf msg (CHR '':'')
      in \<lparr> name = (if separationIdx \<noteq> - 1 then slice msg 0 separationIdx else ''''),
           message = (if separationIdx \<noteq> - 1 \<and> separationIdx + 2 \<le> int (length msg)
                      then substring msg (separationIdx + 2) else msg) \<rparr>)"

section \<open>rewriteErrorMessage\<close>

text \<open>
  An \<open>Error\<close> has a name, a message and an optional stack. Errors are objects: the store
  maps a reference to the object it points to, and a function that mutates its argument
  takes the store and returns the new one.
\<close>

record error_obj = name_message +
  stack :: "string option"

type_synonym ref = nat

type_synonym store = "ref \<Rightarrow> error_obj"

definition rewriteErrorMessage :: "store \<Rightarrow> ref \<Rightarrow> string \<Rightarrow> store \<times> ref" where
  "rewriteErrorMessage h e newMessage =
     (let lines = filter (\<lambda>l. startsWith l ''    at '')
                    (case stack (h e) of None \<Rightarrow> [] | Some s \<Rightarrow> split_str s NL);
          h1 = h(e := (h e)\<lparr> message := newMessage \<rparr>);
          errorTitle = name (h1 e) @ '': '' @ message (h1 e);
          h2 = (if length lines \<noteq> 0
                then h1(e := (h1 e)\<lparr> stack := Some (errorTitle @ [NL] @ join_str lines [NL]) \<rparr>)
                else h1)
      in (h2, e))"

text \<open>The frame lines of a stack string: its lines that start with four spaces and \<open>at\<close>.\<close>

definition frameLines :: "string \<Rightarrow> string list" where
  "frameLines s = filter (\<lambda>l. startsWith l ''    at '') (split_str s NL)"

subsection \<open>An example store\<close>

text \<open>An example store: error 0 has a stack with two frame lines, every other error has none.\<close>

definition example_error_stack :: string where
  "example_error_stack =
     join_str [''Error: old'', ''    at a (x.js:1:1)'', ''note'', ''    at b (y.js:2:2)''] [NL]"

definition example_store :: store where
  "example_store =
     (\<lambda>r. if r = 0
          then \<lparr> name = ''Error'', message = ''old'',
                 stack = Some example_error_stack \<rparr>
          else \<lparr> name = ''TypeError'', message = ''bad'', stack = None \<rparr>)"

section \<open>captureStackTrace\<close>

record StackFrame =
  file_path :: string
  line :: "nat option"
  column :: "nat option"
  function_name :: "string option"

text \<open>What \<open>stackUtils.parseLine\<close> answers for a line it recognises; every field is optional.\<close>

record StackLineData =
  parsed_file :: "string option"
  parsed_line :: "nat option"
  parsed_column :: "nat option"
  parsed_function :: "string option"

record ParsedFrame =
  frame :: StackFrame
  frameText :: string
  inClient :: bool

record ParsedStackTrace =
  allFrames :: "StackFrame list"
  frames :: "StackFrame list"
  frameTexts :: "string list"
  apiName :: string

text \<open>
  The runtime the module runs in: Node's \<open>path\<close> module, \<open>__dirname\<close>, \<open>process.cwd()\<close>,
  the \<open>stack-utils\<close> line parser, \<open>isUnderTest()\<close>, \<open>String.prototype.toLowerCase\<close>, and
  the stack string a \<open>new Error()\<close> made at the call site holds, as a function of the value
  of \<open>Error.stackTraceLimit\<close> at that moment.
\<close>

record env =
  path_resolve :: "string list \<Rightarrow> string"
  path_join :: "string list \<Rightarrow> string"
  dirname :: string
  cwd :: string
  parseLine :: "string \<Rightarrow> StackLineData option"
  isUnderTest :: bool
  toLowerCase :: "string \<Rightarrow> string"
  newErrorStack :: "enat \<Rightarrow> string"

text \<open>The global \<open>Error.stackTraceLimit\<close>; any other global state is the record's extension.\<close>

record globals =
  stackTraceLimit :: enat

definition ROOT_DIR :: "env \<Rightarrow> string" where
  "ROOT_DIR env = path_resolve env [dirname env, ''..'', ''..'']"

definition CLIENT_LIB :: "env \<Rightarrow> string" where
  "CLIENT_LIB env = path_join env [ROOT_DIR env, ''lib'', ''client'']"

definition CLIENT_SRC :: "env \<Rightarrow> string" where
  "CLIENT_SRC env = path_join env [ROOT_DIR env, ''src'', ''client'']"

definition TEST_LIB :: "env \<Rightarrow> string" where
  "TEST_LIB env = path_join env [ROOT_DIR env, ''lib'', ''test'']"

definition TEST_SRC :: "env \<Rightarrow> string" where
  "TEST_SRC env = path_join env [ROOT_DIR env, ''src'', ''test'']"

text \<open>The callback of \<open>stack.split('\n').map(...)\<close>: \<open>None\<close> is the source's \<open>null\<close>.\<close>

definition parseFrame :: "env \<Rightarrow> bool \<Rightarrow> string \<Rightarrow> ParsedFrame option" where
  "parseFrame env isTesting lineText =
     (case parseLine env lineText of
        None \<Rightarrow> None
      | Some fr \<Rightarrow>
          (case parsed_file fr of
             None \<Rightarrow> None
           | Some f \<Rightarrow>
               if f = [] then None
               else if startsWith f ''internal'' then None
               else if includes_str f (path_join env [''node_modules'', ''expect'']) then None
               else
                 (let fileName = path_resolve env [cwd env, f]
                  in if isTesting \<and>
                        includes_str fileName
                          (path_join env [''playwright'', ''tests'', ''config'', ''coverage.js''])
                     then None
                     else
                       (let inClient =
                              ((\<not> includes_str fileName ''test/index'' \<and>
                                \<not> includes_str fileName (''test'' @ [CHR 0x5C] @ ''index'')) \<and>
                               (startsWith fileName (CLIENT_LIB env)
                                \<or> startsWith fileName (CLIENT_SRC env)
                                \<or> startsWith fileName (TEST_LIB env)
                                \<or> startsWith fileName (TEST_SRC env)))
                        in Some \<lparr> frame = \<lparr> file_path = fileName, line = parsed_line fr,
                                            column = parsed_column fr,
                                            function_name = parsed_function fr \<rparr>,
                                  frameText = lineText,
                                  inClient = inClient \<rparr>))))"

text \<open>\<open>.filter(Boolean)\<close> on the mapped lines drops the \<open>null\<close>s.\<close>

fun filterBoolean :: "'a option list \<Rightarrow> 'a list" where
  "filterBoolean [] = []"
| "filterBoolean (None # xs) = filterBoolean xs"
| "filterBoolean (Some x # xs) = x # filterBoolean xs"

definition parseStack :: "env \<Rightarrow> string \<Rightarrow> ParsedFrame list" where
  "parseStack env stk =
     filterBoolean (map (parseFrame env (isUnderTest env)) (split_str stk NL))"

text \<open>
  \<open>frame.function ? frame.function[0].toLowerCase() + frame.function.slice(1) : ''\<close>:
  an absent and an empty function name are both falsy.
\<close>

definition apiNameOf :: "env \<Rightarrow> StackFrame \<Rightarrow> string" where
  "apiNameOf env fr =
     (case function_name fr of
        None \<Rightarrow> ''''
      | Some f \<Rightarrow> if f = [] then '''' else toLowerCase env [f ! 0] @ drop 1 f)"

text \<open>
  The \<open>for\<close> loop from index \<open>i\<close> on, with the values of \<open>apiName\<close> and \<open>parsedFrames\<close> it
  leaves. The test \<open>i < parsedFrames.length - 1\<close> is on integers: an empty list gives
  \<open>0 < -1\<close>.
\<close>

function apiEntryLoop :: "env \<Rightarrow> ParsedFrame list \<Rightarrow> nat \<Rightarrow> string \<times> ParsedFrame list" where
  "apiEntryLoop env parsedFrames i =
     (if int i < int (length parsedFrames) - 1 then
        (if inClient (parsedFrames ! i) \<and> \<not> inClient (parsedFrames ! (i + 1)) then
           (apiNameOf env (frame (parsedFrames ! i)), drop (i + 1) parsedFrames)
         else apiEntryLoop env parsedFrames (i + 1))
      else ('''', parsedFrames))"
  by pat_completeness auto
termination
  by (relation "measure (\<lambda>(env, parsedFrames, i). length parsedFrames - i)") auto

text \<open>
  The first five statements of \<open>captureStackTrace\<close>: the limit is read, set to 30, the
  error is made and its stack read, and the limit is written back. The result is the
  global state in which \<open>new Error()\<close> runs, the stack, and the global state after the
  limit is written back.
\<close>

definition stackSnapshot ::
  "env \<Rightarrow> 'a globals_scheme \<Rightarrow> 'a globals_scheme \<times> string \<times> 'a globals_scheme" where
  "stackSnapshot env g =
     (let stackTraceLimit0 = stackTraceLimit g;
          g1 = g\<lparr> stackTraceLimit := 30 \<rparr>;
          stk = newErrorStack env (stackTraceLimit g1);
          g2 = g1\<lparr> stackTraceLimit := stackTraceLimit0 \<rparr>
      in (g1, stk, g2))"

definition captureStackTrace ::
  "env \<Rightarrow> 'a globals_scheme \<Rightarrow> ParsedStackTrace \<times> 'a globals_scheme" where
  "captureStackTrace env g =
     (let (g1, stk, g2) = stackSnapshot env g;
          allParsed = parseStack env stk;
          (apiName, parsedFrames) = apiEntryLoop env allParsed 0
      in (\<lparr> allFrames = map frame allParsed,
            frames = map frame parsedFrames,
            frameTexts = map frameText parsedFrames,
            apiName = apiName \<rparr>, g2))"

text \<open>
  A transition frame: the frame at index \<open>i\<close> is in-client and the next-outer frame, at
  index \<open>i + 1\<close>, is not. Index \<open>0\<close> is the innermost frame, so the deepest transition
  is the one with the least index.
\<close>

definition transitionAt :: "ParsedFrame list \<Rightarrow> nat \<Rightarrow> bool" where
  "transitionAt ps i = (i + 1 < length ps \<and> inClient (ps ! i) \<and> \<not> inClient (ps ! (i + 1)))"

subsection \<open>An example runtime\<close>

text \<open>
  A POSIX runtime whose library is installed under \<open>/pw\<close>, with ASCII lower-casing and
  a line parser given as a table. Its stack has a frame of the stack-trace utility, the
  client method \<open>Page.goto\<close>, the user function \<open>run\<close> that called it, an outer client
  frame, an anonymous user frame and a Node-internal frame.
\<close>

definition ascii_toLowerCase :: "string \<Rightarrow> string" where
  "ascii_toLowerCase s =
     map (\<lambda>c. case map_of (zip ''ABCDEFGHIJKLMNOPQRSTUVWXYZ'' ''abcdefghijklmnopqrstuvwxyz'') c of
                 None \<Rightarrow> c
               | Some l \<Rightarrow> l) s"

definition example_lines :: "(string \<times> StackLineData) list" where
  "example_lines =
     [(''    at captureStackTrace (/pw/lib/utils/stackTrace.js:49:17)'',
       \<lparr> parsed_file = Some ''/pw/lib/utils/stackTrace.js'', parsed_line = Some 49,
         parsed_column = Some 17, parsed_function = Some ''captureStackTrace'' \<rparr>),
      (''    at Page.goto (/pw/lib/client/page.js:100:20)'',
       \<lparr> parsed_file = Some ''/pw/lib/client/page.js'', parsed_line = Some 100,
         parsed_column = Some 20, parsed_function = Some ''Page.goto'' \<rparr>),
      (''    at run (/app/main.js:5:14)'',
       \<lparr> parsed_file = Some ''/app/main.js'', parsed_line = Some 5,
         parsed_column = Some 14, parsed_function = Some ''run'' \<rparr>),
      (''    at Page.waitFor (/pw/lib/client/page.js:200:9)'',
       \<lparr> parsed_file = Some ''/pw/lib/client/page.js'', parsed_line = Some 200,
         parsed_column = Some 9, parsed_function = Some ''Page.waitFor'' \<rparr>),
      (''    at /app/main.js:9:3'',
       \<lparr> parsed_file = Some ''/app/main.js'', parsed_line = Some 9,
         parsed_column = Some 3, parsed_function = None \<rparr>),
      (''    at next (internal/process/task_queues.js:93:5)'',
       \<lparr> parsed_file = Some ''internal/process/task_queues.js'', parsed_line = Some 93,
         parsed_column = Some 5, parsed_function = Some ''next'' \<rparr>)]"

definition example_stack :: string where
  "example_stack = join_str (''Error'' # map fst example_lines) [NL]"

definition example_env :: env where
  "example_env =
     \<lparr> path_resolve =
         (\<lambda>segs. if segs = [''/pw/lib/utils'', ''..'', ''..''] then ''/pw'' else last segs),
       path_join = (\<lambda>segs. join_str segs ''/''),
       dirname = ''/pw/lib/utils'',
       cwd = ''/app'',
       parseLine = map_of example_lines,
       isUnderTest = False,
       toLowerCase = ascii_toLowerCase,
       newErrorStack = (\<lambda>limit. example_stack) \<rparr>"

definition example_parsed :: "ParsedFrame list" where
  "example_parsed =
     [\<lparr> frame = \<lparr> file_path = ''/pw/lib/utils/stackTrace.js'', line = Some 49,
                  column = Some 17, function_name = Some ''captureStackTrace'' \<rparr>,
        frameText = ''    at captureStackTrace (/pw/lib/utils/stackTrace.js:49:17)'',
        inClient = False \<rparr>,
      \<lparr> frame = \<lparr> file_path = ''/pw/lib/client/page.js'', line = Some 100,
                  column = Some 20, function_name = Some ''Page.goto'' \<rparr>,
        frameText = ''    at Page.goto (/pw/lib/client/page.js:100:20)'',
        inClient = True \<rparr>,
      \<lparr> frame = \<lparr> file_path = ''/app/main.js'', line = Some 5,
                  column = Some 14, function_name = Some ''run'' \<rparr>,
        frameText = ''    at run (/app/main.js:5:14)'',
        inClient = False \<rparr>,
      \<lparr> frame = \<lparr> file_path = ''/pw/lib/client/page.js'', line = Some 200,
                  column = Some 9, function_name = Some ''Page.waitFor'' \<rparr>,
        frameText = ''    at Page.waitFor (/pw/lib/client/page.js:200:9)'',
        inClient = True \<rparr>,
      \<lparr> frame = \<lparr> file_path = ''/app/main.js'', line = Some 9,
                  column = Some 3, function_name = None \<rparr>,
        frameText = ''    at /app/main.js:9:3'',
        inClient = False \<rparr>]"

section \<open>The server side: protocol values and the Dispatcher base class\<close>

text \<open>
  Values that travel in initializers, event parameters and results. A dispatcher inside
  such a value goes over the wire as its guid.
\<close>

datatype json =
    JUndefined
  | JBool bool
  | JNum int
  | JStr string
  | JChannel string
  | JArr "json list"
  | JObj "(string \<times> json) list"

text \<open>
  The wire messages the server sends: \<open>__create__\<close> with the guid, the type and the
  initializer, \<open>__dispose__\<close> with the guid, and an event with the guid, the method and the
  parameters.
\<close>

datatype wire_message =
    CreateMsg string string json
  | DisposeMsg string
  | EventMsg string string json

text \<open>
  Modelled from the spec: the \<open>Dispatcher\<close> base class, \<open>existingDispatcher\<close>,
  \<open>_dispatchEvent\<close> and \<open>_dispose\<close> are in \<open>dispatchers/dispatcher.ts\<close>, which is not among
  the sources. A dispatcher has a guid, a type, a parent scope and a disposed flag. The
  guid is the identifier of the pair of the wrapped object and its dispatcher, made once
  when the object is created server-side, so the wrapped object is the one carrying the
  dispatcher's guid, and the child set of a dispatcher is read off the parent fields.
\<close>

record Dispatcher =
  guid :: string
  dtype :: string
  parentScope :: "string option"
  isScope :: bool
  disposed :: bool

text \<open>
  Node's \<open>EventEmitter\<close>, for the listeners these sources register. A listener is a
  closure over the dispatcher that registered it; the closures of the source are the
  constructors of \<open>handler\<close>, each holding the guid of its dispatcher.
\<close>

datatype event_name =
    WebSocket_FrameSent
  | WebSocket_FrameReceived
  | WebSocket_SocketError
  | WebSocket_Close
  | FetchRequest_Dispose

datatype handler =
    ForwardFrameSent string
  | ForwardFrameReceived string
  | ForwardSocketError string
  | ForwardClose string
  | DisposeUnlessDisposed string

record listener =
  emitter :: string
  event :: event_name
  once :: bool
  handler :: handler

text \<open>
  The state of one server-side connection: every dispatcher made so far, newest first
  (the guid table of the Dispatcher Scope is its part that is not disposed), the messages
  sent to the client, oldest first, and the listeners registered on server-side objects,
  in registration order.
\<close>

record world =
  dispatchers :: "Dispatcher list"
  wire :: "wire_message list"
  listeners :: "listener list"

text \<open>
  Modelled from the spec: \<open>existingDispatcher(object)\<close> (in \<open>dispatcher.ts\<close>, not among the
  sources) answers the dispatcher of the
  pair the object belongs to, the one with the object's guid, or nothing.
\<close>

definition existingDispatcher :: "world \<Rightarrow> string \<Rightarrow> Dispatcher option" where
  "existingDispatcher w objectGuid = find (\<lambda>d. guid d = objectGuid) (dispatchers w)"

text \<open>
  Modelled from the spec: the flag \<open>_disposed\<close> of the dispatcher with guid \<open>g\<close> (a field
  of the base class in \<open>dispatcher.ts\<close>, not among the sources), as the state has it; an
  object without a dispatcher has none that is disposed.
\<close>

definition disposedOf :: "world \<Rightarrow> string \<Rightarrow> bool" where
  "disposedOf w g = (case existingDispatcher w g of None \<Rightarrow> False | Some d \<Rightarrow> disposed d)"

text \<open>
  Modelled from the spec: the base constructor (\<open>createDispatcher\<close> in the spec; in
  \<open>dispatcher.ts\<close>, not among the sources) takes
  the guid of the pair, registers the dispatcher under its parent scope and sends
  \<open>__create__\<close> with the type, the guid and the initializer.
\<close>

definition Dispatcher_new ::
  "world \<Rightarrow> Dispatcher \<Rightarrow> string \<Rightarrow> string \<Rightarrow> json \<Rightarrow> bool \<Rightarrow> Dispatcher \<times> world" where
  "Dispatcher_new w parent objectGuid type initializer scoped =
     (let d = \<lparr> guid = objectGuid, dtype = type, parentScope = Some (guid parent),
                isScope = scoped, disposed = False \<rparr>
      in (d, w\<lparr> dispatchers := d # dispatchers w,
               wire := wire w @ [CreateMsg objectGuid type initializer] \<rparr>))"

text \<open>
  Modelled from the spec: \<open>_dispatchEvent\<close> (in \<open>dispatcher.ts\<close>, not among the sources)
  pushes the event of the wrapped object over
  the wire, as a message with the dispatcher's guid, the method and the parameters.
\<close>

definition Dispatcher_dispatchEvent :: "world \<Rightarrow> string \<Rightarrow> string \<Rightarrow> json \<Rightarrow> world" where
  "Dispatcher_dispatchEvent w g m params = w\<lparr> wire := wire w @ [EventMsg g m params] \<rparr>"

text \<open>
  Modelled from the spec: the subtree that disposing \<open>g\<close> reaches (the cascade of
  \<open>_dispose\<close> in \<open>dispatcher.ts\<close>, not among the sources). The members of the scope of
  \<open>g\<close> are \<open>g\<close> and every dispatcher below it; a child is made after its parent, so one
  pass from the oldest dispatcher to the newest finds them, and the result lists the
  newest first and \<open>g\<close> last.
\<close>

definition scopeMembers :: "Dispatcher list \<Rightarrow> string \<Rightarrow> string list" where
  "scopeMembers ds g =
     foldr (\<lambda>d members. case parentScope d of
                           None \<Rightarrow> members
                         | Some p \<Rightarrow> if p \<in> set members then guid d # members else members)
           ds [g]"

text \<open>
  Modelled from the spec: the transition from active to disposed of one dispatcher (the
  body of \<open>_dispose\<close>, not among the sources). A dispatcher that is registered and not
  disposed gets its flag set and its \<open>__dispose__\<close> sent; from the disposed state there is
  no transition.
\<close>

definition disposeOne :: "world \<Rightarrow> string \<Rightarrow> world" where
  "disposeOne w m =
     (case existingDispatcher w m of
        None \<Rightarrow> w
      | Some d \<Rightarrow>
          if disposed d then w
          else w\<lparr> dispatchers :=
                     map (\<lambda>x. if guid x = m then x\<lparr> disposed := True \<rparr> else x) (dispatchers w),
                   wire := wire w @ [DisposeMsg m] \<rparr>)"

text \<open>
  Modelled from the spec: \<open>_dispose\<close> (not among the sources) disposes the members of the
  scope in the order of \<open>scopeMembers\<close>, children before parents.
\<close>

definition Dispatcher_dispose :: "world \<Rightarrow> string \<Rightarrow> world" where
  "Dispatcher_dispose w g = fold (\<lambda>m w'. disposeOne w' m) (scopeMembers (dispatchers w) g) w"

text \<open>
  The listeners of \<open>networkDispatchers.ts\<close>, run with the argument the emitter passes.
\<close>

fun runHandler :: "world \<Rightarrow> handler \<Rightarrow> json \<Rightarrow> world" where
  "runHandler w (ForwardFrameSent this) e = Dispatcher_dispatchEvent w this ''frameSent'' e"
| "runHandler w (ForwardFrameReceived this) e =
     Dispatcher_dispatchEvent w this ''frameReceived'' e"
| "runHandler w (ForwardSocketError this) error =
     Dispatcher_dispatchEvent w this ''socketError'' (JObj [(''error'', error)])"
| "runHandler w (ForwardClose this) arg = Dispatcher_dispatchEvent w this ''close'' (JObj [])"
| "runHandler w (DisposeUnlessDisposed this) arg =
     (if \<not> disposedOf w this then Dispatcher_dispose w this else w)"

definition emitter_on :: "world \<Rightarrow> string \<Rightarrow> event_name \<Rightarrow> handler \<Rightarrow> world" where
  "emitter_on w obj ev h =
     w\<lparr> listeners := listeners w @ [\<lparr> emitter = obj, event = ev, once = False, handler = h \<rparr>] \<rparr>"

definition emitter_once :: "world \<Rightarrow> string \<Rightarrow> event_name \<Rightarrow> handler \<Rightarrow> world" where
  "emitter_once w obj ev h =
     w\<lparr> listeners := listeners w @ [\<lparr> emitter = obj, event = ev, once = True, handler = h \<rparr>] \<rparr>"

text \<open>
  \<open>emit\<close> calls the listeners registered for the event on the object, in registration
  order; a \<open>once\<close> listener is taken off the object before it is called.
\<close>

definition emit :: "world \<Rightarrow> string \<Rightarrow> event_name \<Rightarrow> json \<Rightarrow> world" where
  "emit w obj ev arg =
     (let called = filter (\<lambda>l. emitter l = obj \<and> event l = ev) (listeners w);
          w1 = w\<lparr> listeners :=
                     filter (\<lambda>l. \<not> (emitter l = obj \<and> event l = ev \<and> once l)) (listeners w) \<rparr>
      in fold (\<lambda>l w'. runHandler w' (handler l) arg) called w1)"

section \<open>networkDispatchers.ts\<close>

text \<open>\<open>Buffer.toString('base64')\<close>, with padding.\<close>

definition base64_alphabet :: string where
  "base64_alphabet = ''ABCDEFGHIJKLMNOPQRSTUVWXYZabcdefghijklmnopqrstuvwxyz0123456789+/''"

fun base64 :: "nat list \<Rightarrow> string" where
  "base64 [] = []"
| "base64 [a] =
     [base64_alphabet ! (a div 4), base64_alphabet ! ((a mod 4) * 16), CHR ''='', CHR ''='']"
| "base64 [a, b] =
     [base64_alphabet ! (a div 4), base64_alphabet ! ((a mod 4) * 16 + b div 16),
      base64_alphabet ! ((b mod 16) * 4), CHR ''='']"
| "base64 (a # b # c # rest) =
     [base64_alphabet ! (a div 4), base64_alphabet ! ((a mod 4) * 16 + b div 16),
      base64_alphabet ! ((b mod 16) * 4 + c div 64), base64_alphabet ! (c mod 64)] @ base64 rest"

definition toString_base64 :: "8 word list \<Rightarrow> string" where
  "toString_base64 buffer = base64 (map unat buffer)"

text \<open>
  The server-side objects the dispatchers wrap (\<open>server/network.ts\<close>, \<open>server/fetch.ts\<close>
  and \<open>server/frames.ts\<close> are not among the sources): each is given by its guid and by
  what the accessors called here answer.
\<close>

datatype Frame = Frame (frame_guid: string)

datatype Request =
  Request (request_guid: string) (request_frame: Frame) (request_url: string)
    (resourceType: string) (request_method: string) (postDataBuffer: "8 word list option")
    (request_headers: json) (isNavigationRequest: bool) (redirectedFrom: "Request option")

record Response =
  response_guid :: string
  response_request :: Request
  response_url :: string
  status :: int
  statusText :: string
  response_headers :: json
  timing :: json

record Route =
  route_guid :: string
  route_request :: Request

record WebSocket =
  webSocket_guid :: string
  webSocket_url :: string

record FetchRequest =
  fetchRequest_guid :: string
  fetchResponses :: "string \<rightharpoonup> 8 word list"

text \<open>
  \<open>RequestDispatcher\<close>. \<open>FrameDispatcher.from\<close> is in \<open>frameDispatcher.ts\<close>, not among the
  sources, and is a parameter. The initializer is evaluated in the order of the object
  literal: the frame's dispatcher first, the dispatcher of the redirect source last, and
  then the base constructor runs.
\<close>

type_synonym frame_factory = "world \<Rightarrow> Dispatcher \<Rightarrow> Frame \<Rightarrow> Dispatcher \<times> world"

function RequestDispatcher_from ::
    "frame_factory \<Rightarrow> world \<Rightarrow> Dispatcher \<Rightarrow> Request \<Rightarrow> Dispatcher \<times> world"
  and RequestDispatcher_fromNullable ::
    "frame_factory \<Rightarrow> world \<Rightarrow> Dispatcher \<Rightarrow> Request option \<Rightarrow> Dispatcher option \<times> world"
  and RequestDispatcher_new ::
    "frame_factory \<Rightarrow> world \<Rightarrow> Dispatcher \<Rightarrow> Request \<Rightarrow> Dispatcher \<times> world"
where
  "RequestDispatcher_from FrameDispatcher_from w scope request =
     (case existingDispatcher w (request_guid request) of
        Some result \<Rightarrow> (result, w)
      | None \<Rightarrow> RequestDispatcher_new FrameDispatcher_from w scope request)"
| "RequestDispatcher_fromNullable FrameDispatcher_from w scope None = (None, w)"
| "RequestDispatcher_fromNullable FrameDispatcher_from w scope (Some request) =
     (case RequestDispatcher_from FrameDispatcher_from w scope request of
        (d, w') \<Rightarrow> (Some d, w'))"
| "RequestDispatcher_new FrameDispatcher_from w scope request =
     (let postData = postDataBuffer request in
      case FrameDispatcher_from w scope (request_frame request) of
        (frameDispatcher, w1) \<Rightarrow>
          (case RequestDispatcher_fromNullable FrameDispatcher_from w1 scope
                  (redirectedFrom request) of
             (redirected, w2) \<Rightarrow>
               Dispatcher_new w2 scope (request_guid request) ''Request''
                 (JObj [(''frame'', JChannel (guid frameDispatcher)),
                        (''url'', JStr (request_url request)),
                        (''resourceType'', JStr (resourceType request)),
                        (''method'', JStr (request_method request)),
                        (''postData'', case postData of
                                         None \<Rightarrow> JUndefined
                                       | Some buffer \<Rightarrow> JStr (toString_base64 buffer)),
                        (''headers'', request_headers request),
                        (''isNavigationRequest'', JBool (isNavigationRequest request)),
                        (''redirectedFrom'', case redirected of
                                               None \<Rightarrow> JUndefined
                                             | Some d \<Rightarrow> JChannel (guid d))])
                 False))"
  by pat_completeness auto
termination
proof (relation "measure (\<lambda>x. case x of
            Inl (F, w, s, r) \<Rightarrow> 2 * size r + 1
          | Inr (Inl (F, w, s, ro)) \<Rightarrow> (case ro of None \<Rightarrow> 0 | Some r \<Rightarrow> 2 * size r + 2)
          | Inr (Inr (F, w, s, r)) \<Rightarrow> 2 * size r)", goal_cases)
  case 1
  show ?case by simp
next
  case (2 F w scope request)
  show ?case by simp
next
  case (3 F w scope request)
  show ?case by simp
next
  case (4 F w scope request x frameDispatcher w1)
  show ?case by (cases request) (auto split: option.splits)
qed

text \<open>\<open>ResponseDispatcher\<close>.\<close>

definition ResponseDispatcher_new ::
  "frame_factory \<Rightarrow> world \<Rightarrow> Dispatcher \<Rightarrow> Response \<Rightarrow> Dispatcher \<times> world" where
  "ResponseDispatcher_new FrameDispatcher_from w scope response =
     (case RequestDispatcher_from FrameDispatcher_from w scope (response_request response) of
        (requestDispatcher, w1) \<Rightarrow>
          Dispatcher_new w1 scope (response_guid response) ''Response''
            (JObj [(''request'', JChannel (guid requestDispatcher)),
                   (''url'', JStr (response_url response)),
                   (''status'', JNum (status response)),
                   (''statusText'', JStr (statusText response)),
                   (''headers'', response_headers response),
                   (''timing'', timing response)])
            False)"

definition ResponseDispatcher_from ::
  "frame_factory \<Rightarrow> world \<Rightarrow> Dispatcher \<Rightarrow> Response \<Rightarrow> Dispatcher \<times> world" where
  "ResponseDispatcher_from FrameDispatcher_from w scope response =
     (case existingDispatcher w (response_guid response) of
        Some result \<Rightarrow> (result, w)
      | None \<Rightarrow> ResponseDispatcher_new FrameDispatcher_from w scope response)"

definition ResponseDispatcher_fromNullable ::
  "frame_factory \<Rightarrow> world \<Rightarrow> Dispatcher \<Rightarrow> Response option \<Rightarrow> Dispatcher option \<times> world" where
  "ResponseDispatcher_fromNullable FrameDispatcher_from w scope response =
     (case response of
        None \<Rightarrow> (None, w)
      | Some r \<Rightarrow> (case ResponseDispatcher_from FrameDispatcher_from w scope r of
                     (d, w') \<Rightarrow> (Some d, w')))"

text \<open>\<open>RouteDispatcher\<close>.\<close>

definition RouteDispatcher_new ::
  "frame_factory \<Rightarrow> world \<Rightarrow> Dispatcher \<Rightarrow> Route \<Rightarrow> Dispatcher \<times> world" where
  "RouteDispatcher_new FrameDispatcher_from w scope route =
     (case RequestDispatcher_from FrameDispatcher_from w scope (route_request route) of
        (requestDispatcher, w1) \<Rightarrow>
          Dispatcher_new w1 scope (route_guid route) ''Route''
            (JObj [(''request'', JChannel (guid requestDispatcher))])
            False)"

definition RouteDispatcher_from ::
  "frame_factory \<Rightarrow> world \<Rightarrow> Dispatcher \<Rightarrow> Route \<Rightarrow> Dispatcher \<times> world" where
  "RouteDispatcher_from FrameDispatcher_from w scope route =
     (case existingDispatcher w (route_guid route) of
        Some result \<Rightarrow> (result, w)
      | None \<Rightarrow> RouteDispatcher_new FrameDispatcher_from w scope route)"

text \<open>\<open>WebSocketDispatcher\<close>: the base constructor, then the four listeners.\<close>

definition WebSocketDispatcher_new ::
  "world \<Rightarrow> Dispatcher \<Rightarrow> WebSocket \<Rightarrow> Dispatcher \<times> world" where
  "WebSocketDispatcher_new w scope webSocket =
     (case Dispatcher_new w scope (webSocket_guid webSocket) ''WebSocket''
             (JObj [(''url'', JStr (webSocket_url webSocket))]) False of
        (this, w0) \<Rightarrow>
          (let w1 = emitter_on w0 (webSocket_guid webSocket) WebSocket_FrameSent
                      (ForwardFrameSent (guid this));
               w2 = emitter_on w1 (webSocket_guid webSocket) WebSocket_FrameReceived
                      (ForwardFrameReceived (guid this));
               w3 = emitter_on w2 (webSocket_guid webSocket) WebSocket_SocketError
                      (ForwardSocketError (guid this));
               w4 = emitter_on w3 (webSocket_guid webSocket) WebSocket_Close
                      (ForwardClose (guid this))
           in (this, w4)))"

text \<open>\<open>FetchRequestDispatcher\<close>: a scope of its own, with a \<open>once\<close> listener for \<open>Dispose\<close>.\<close>

definition FetchRequestDispatcher_new ::
  "world \<Rightarrow> Dispatcher \<Rightarrow> FetchRequest \<Rightarrow> Dispatcher \<times> world" where
  "FetchRequestDispatcher_new w scope request =
     (case Dispatcher_new w scope (fetchRequest_guid request) ''FetchRequest'' (JObj []) True of
        (this, w0) \<Rightarrow>
          (this, emitter_once w0 (fetchRequest_guid request) FetchRequest_Dispose
                   (DisposeUnlessDisposed (guid this))))"

definition FetchRequestDispatcher_from ::
  "world \<Rightarrow> Dispatcher \<Rightarrow> FetchRequest \<Rightarrow> Dispatcher \<times> world" where
  "FetchRequestDispatcher_from w scope request =
     (case existingDispatcher w (fetchRequest_guid request) of
        Some result \<Rightarrow> (result, w)
      | None \<Rightarrow> FetchRequestDispatcher_new w scope request)"

definition FetchRequestDispatcher_fromNullable ::
  "world \<Rightarrow> Dispatcher \<Rightarrow> FetchRequest option \<Rightarrow> Dispatcher option \<times> world" where
  "FetchRequestDispatcher_fromNullable w scope request =
     (case request of
        None \<Rightarrow> (None, w)
      | Some r \<Rightarrow> (case FetchRequestDispatcher_from w scope r of (d, w') \<Rightarrow> (Some d, w')))"

text \<open>
  \<open>fetchResponseBody\<close>, on the wrapped object \<open>this._object\<close>. An \<open>async\<close> method settles
  its promise: \<open>Inr\<close> is a resolved promise and \<open>Inl\<close> a rejected one. A \<open>Buffer\<close> is an
  object and so truthy, also when it is empty.
\<close>

record FetchRequestFetchResponseBodyParams =
  fetchUid :: string

record FetchRequestFetchResponseBodyResult =
  binary :: "string option"

definition fetchResponseBody ::
  "FetchRequest \<Rightarrow> FetchRequestFetchResponseBodyParams \<Rightarrow>
     error_obj + FetchRequestFetchResponseBodyResult" where
  "fetchResponseBody object params =
     (let buffer = fetchResponses object (fetchUid params)
      in Inr \<lparr> binary = (case buffer of
                           None \<Rightarrow> None
                         | Some b \<Rightarrow> Some (toString_base64 b)) \<rparr>)"

definition disposeFetchResponse ::
  "FetchRequest \<Rightarrow> FetchRequestFetchResponseBodyParams \<Rightarrow> FetchRequest" where
  "disposeFetchResponse object params =
     object\<lparr> fetchResponses := (fetchResponses object)(fetchUid params := None) \<rparr>"

section \<open>What happens to a dispatcher after it is made\<close>

text \<open>
  What can happen on the server side after a \<open>FetchRequestDispatcher\<close> is made: an object
  emits an event; a dispatcher is disposed, which is an explicit disposal, the disposal
  of a parent scope or the teardown of the connection, according to the dispatcher named;
  the factory is called again.
\<close>

datatype action =
    ObjectEmits string event_name json
  | DisposeDispatcher string
  | FetchRequestFrom Dispatcher FetchRequest

fun step :: "world \<Rightarrow> action \<Rightarrow> world" where
  "step w (ObjectEmits obj ev arg) = emit w obj ev arg"
| "step w (DisposeDispatcher g) = Dispatcher_dispose w g"
| "step w (FetchRequestFrom scope request) = snd (FetchRequestDispatcher_from w scope request)"

definition run :: "world \<Rightarrow> action list \<Rightarrow> world" where
  "run w acts = fold (\<lambda>a w'. step w' a) acts w"

text \<open>How many times \<open>__dispose__\<close> was sent for a guid.\<close>

definition disposeCount :: "world \<Rightarrow> string \<Rightarrow> nat" where
  "disposeCount w g = count_list (wire w) (DisposeMsg g)"

text \<open>The listeners the \<open>WebSocketDispatcher\<close> constructor registers.\<close>

definition WebSocketDispatcher_listeners :: "string \<Rightarrow> string \<Rightarrow> listener list" where
  "WebSocketDispatcher_listeners obj this =
     [\<lparr> emitter = obj, event = WebSocket_FrameSent, once = False,
          handler = ForwardFrameSent this \<rparr>,
      \<lparr> emitter = obj, event = WebSocket_FrameReceived, once = False,
          handler = ForwardFrameReceived this \<rparr>,
      \<lparr> emitter = obj, event = WebSocket_SocketError, once = False,
          handler = ForwardSocketError this \<rparr>,
      \<lparr> emitter = obj, event = WebSocket_Close, once = False,
          handler = ForwardClose this \<rparr>]"

text \<open>
  The two facts about the lifecycle of the dispatcher \<open>g\<close> that every step keeps: a
  disposed dispatcher stays disposed, and \<open>__dispose__\<close> was sent for it once at most, and
  not at all while it is not disposed.
\<close>

definition disposedAtMostOnce :: "string \<Rightarrow> world \<Rightarrow> bool" where
  "disposedAtMostOnce g w = (disposeCount w g \<le> (if disposedOf w g then 1 else 0))"

definition lifecycleKept :: "string \<Rightarrow> world \<Rightarrow> world \<Rightarrow> bool" where
  "lifecycleKept g w w' =
     ((\<not> disposedOf w g \<or> disposedOf w' g) \<and>
      (\<not> disposedAtMostOnce g w \<or> disposedAtMostOnce g w'))"

subsection \<open>An example request context\<close>

definition example_fetchRequest :: FetchRequest where
  "example_fetchRequest =
     \<lparr> fetchRequest_guid = ''fetch1'',
       fetchResponses = [''a'' \<mapsto> [0x4D, 0x61, 0x6E]] \<rparr>"

definition example_root :: Dispatcher where
  "example_root =
     \<lparr> guid = ''root'', dtype = ''Root'', parentScope = None, isScope = True,
       disposed = False \<rparr>"

definition example_world :: world where
  "example_world = \<lparr> dispatchers = [example_root], wire = [], listeners = [] \<rparr>"

definition example_webSocket :: WebSocket where
  "example_webSocket = \<lparr> webSocket_guid = ''ws1'', webSocket_url = ''ws://host/'' \<rparr>"

definition example_frame_event :: json where
  "example_frame_event = JObj [(''opcode'', JNum 1), (''data'', JStr ''hi'')]"

text \<open>The example world after the dispatcher of \<open>example_fetchRequest\<close> is made, and after
  the request context then emits \<open>Dispose\<close>.\<close>

definition example_created :: world where
  "example_created = snd (FetchRequestDispatcher_new example_world example_root example_fetchRequest)"

definition example_disposed :: world where
  "example_disposed = emit example_created ''fetch1'' FetchRequest_Dispose JUndefined"

definition example_actions :: "action list" where
  "example_actions =
     [ObjectEmits ''fetch1'' FetchRequest_Dispose JUndefined,
      DisposeDispatcher ''fetch1'',
      FetchRequestFrom example_root example_fetchRequest,
      DisposeDispatcher ''root'',
      ObjectEmits ''fetch1'' FetchRequest_Dispose JUndefined]"

section \<open>The client side: the Connection and its pending calls\<close>

text \<open>
  Modelled from the spec: the pending call of the client \<open>Connection\<close>, which is not among
  the sources. It holds its id and the call metadata taken at the call site; its promise
  is settled by the matching response.
\<close>

record PendingCall =
  call_id :: nat
  call_stackTrace :: ParsedStackTrace

text \<open>
  Modelled from the spec: the request message of the wire (the client \<open>Connection\<close> is
  not among the sources), with its id, target guid, method, parameters and the API name
  as metadata.
\<close>

record WireRequest =
  request_id :: nat
  target_guid :: string
  request_method_name :: string
  request_params :: json
  metadata_apiName :: string

text \<open>
  Modelled from the spec: the response message of the wire (the client \<open>Connection\<close> is
  not among the sources), a result or an error.
\<close>

datatype response = Result json | Failure error_obj

text \<open>
  Modelled from the spec: the state of the client \<open>Connection\<close>, which is not among the
  sources: the last id allocated, the pending-call table, the requests handed to the
  transport, and the calls settled so far with their responses. The table is kept as the
  list of its entries, in the order they were stored, so that "one entry per id" is a
  statement to prove and not a property of the type. Ids are natural numbers.
\<close>

record Connection =
  lastId :: nat
  callbacks :: "PendingCall list"
  transport :: "WireRequest list"
  settled :: "(PendingCall \<times> response) list"

text \<open>
  Modelled from the spec: a new client \<open>Connection\<close> (not among the sources) has allocated
  no id and has no pending call; the first call gets id 1.
\<close>

definition Connection_new :: Connection where
  "Connection_new = \<lparr> lastId = 0, callbacks = [], transport = [], settled = [] \<rparr>"

text \<open>
  Modelled from the spec: \<open>sendMessageToServer\<close> of the client \<open>Connection\<close> (not among
  the sources) allocates the next id, stores a
  pending-call entry with the stack trace and API name of the call, and hands the payload
  to the transport. It answers the id, which stands for the promise of the call.
\<close>

definition sendMessageToServer ::
  "Connection \<Rightarrow> string \<Rightarrow> string \<Rightarrow> json \<Rightarrow> ParsedStackTrace \<Rightarrow> nat \<times> Connection" where
  "sendMessageToServer c g m p stackTrace =
     (let callId = lastId c + 1
      in (callId, c\<lparr> lastId := callId,
                 callbacks := callbacks c @ [\<lparr> call_id = callId, call_stackTrace = stackTrace \<rparr>],
                 transport := transport c @
                   [\<lparr> request_id = callId, target_guid = g, request_method_name = m, request_params = p,
                      metadata_apiName = apiName stackTrace \<rparr>] \<rparr>))"

text \<open>
  Modelled from the spec: \<open>dispatch\<close> of the client \<open>Connection\<close> (not among the sources),
  for a message with an id: looks the pending entry up
  and removes it, and settles the call with the response; a message whose id has no
  pending entry is ignored.
\<close>

definition dispatch :: "Connection \<Rightarrow> nat \<Rightarrow> response \<Rightarrow> Connection" where
  "dispatch c callId r =
     (case find (\<lambda>e. call_id e = callId) (callbacks c) of
        None \<Rightarrow> c
      | Some e \<Rightarrow> c\<lparr> callbacks := filter (\<lambda>x. call_id x \<noteq> callId) (callbacks c),
                      settled := settled c @ [(e, r)] \<rparr>)"

text \<open>
  A sequence of calls issued and responses received on one connection, in any
  interleaving. Running it answers the ids allocated, in the order of the calls, and the
  connection it leaves.
\<close>

datatype client_action =
    Send string string json ParsedStackTrace
  | Receive nat response

fun client_run :: "Connection \<Rightarrow> client_action list \<Rightarrow> nat list \<times> Connection" where
  "client_run c [] = ([], c)"
| "client_run c (Send g m p stackTrace # acts) =
     (case sendMessageToServer c g m p stackTrace of
        (callId, c1) \<Rightarrow> (case client_run c1 acts of (ids, c2) \<Rightarrow> (callId # ids, c2)))"
| "client_run c (Receive callId r # acts) = client_run (dispatch c callId r) acts"

definition pendingIds :: "Connection \<Rightarrow> nat list" where
  "pendingIds c = map call_id (callbacks c)"

definition pendingWellFormed :: "Connection \<Rightarrow> bool" where
  "pendingWellFormed c = (distinct (pendingIds c) \<and> list_all (\<lambda>i. i \<le> lastId c) (pendingIds c))"

section \<open>What happens on a connection between two calls of a factory\<close>

text \<open>
  Between two calls of a factory anything of the following can happen, any number of
  times: what can happen to a \<open>FetchRequestDispatcher\<close> (an event, a disposal, a call of
  its factory), and calls of the factories of requests, responses and routes.
\<close>

datatype server_action =
    Lifecycle action
  | RequestFrom Dispatcher Request
  | ResponseFrom Dispatcher Response
  | RouteFrom Dispatcher Route

fun server_step :: "frame_factory \<Rightarrow> world \<Rightarrow> server_action \<Rightarrow> world" where
  "server_step F w (Lifecycle a) = step w a"
| "server_step F w (RequestFrom scope request) = snd (RequestDispatcher_from F w scope request)"
| "server_step F w (ResponseFrom scope response) =
     snd (ResponseDispatcher_from F w scope response)"
| "server_step F w (RouteFrom scope route) = snd (RouteDispatcher_from F w scope route)"

definition server_run :: "frame_factory \<Rightarrow> world \<Rightarrow> server_action list \<Rightarrow> world" where
  "server_run F w acts = fold (\<lambda>a w'. server_step F w' a) acts w"

text \<open>
  A guid identifies one object. So a request is not in its own redirect chain: the guids
  along the chain differ. With \<open>G\<close> the guids of the frames, the frames of the chain have
  their guids in \<open>G\<close> and no request, response or route has; and a response or a route
  does not carry the guid of a request in the chain of its request.
\<close>

fun chainGuids :: "Request \<Rightarrow> string list" where
  "chainGuids (Request g fr u rt m pd h nav rf) =
     g # (case rf of None \<Rightarrow> [] | Some r \<Rightarrow> chainGuids r)"

fun chainFrames :: "Request \<Rightarrow> string list" where
  "chainFrames (Request g fr u rt m pd h nav rf) =
     frame_guid fr # (case rf of None \<Rightarrow> [] | Some r \<Rightarrow> chainFrames r)"

definition wellFormedRequest :: "string set \<Rightarrow> Request \<Rightarrow> bool" where
  "wellFormedRequest G r =
     (distinct (chainGuids r) \<and> set (chainGuids r) \<inter> G = {} \<and> set (chainFrames r) \<subseteq> G)"

fun wellFormedAction :: "string set \<Rightarrow> server_action \<Rightarrow> bool" where
  "wellFormedAction G (Lifecycle a) = True"
| "wellFormedAction G (RequestFrom scope request) = wellFormedRequest G request"
| "wellFormedAction G (ResponseFrom scope response) =
     (wellFormedRequest G (response_request response) \<and>
      response_guid response \<notin> set (chainGuids (response_request response)) \<union> G)"
| "wellFormedAction G (RouteFrom scope route) =
     (wellFormedRequest G (route_request route) \<and>
      route_guid route \<notin> set (chainGuids (route_request route)) \<union> G)"

text \<open>
  What one step may do to the dispatchers: set disposed flags, and put new dispatchers in
  front, with guids from \<open>A\<close> that differ from each other and from every guid in use.
\<close>

definition forgetDisposed :: "Dispatcher \<Rightarrow> Dispatcher" where
  "forgetDisposed d = d\<lparr> disposed := False \<rparr>"

definition growsBy :: "string set \<Rightarrow> world \<Rightarrow> world \<Rightarrow> bool" where
  "growsBy A w w' =
     (\<exists>new. map forgetDisposed (dispatchers w') = new @ map forgetDisposed (dispatchers w) \<and>
            distinct (map guid new) \<and>
            set (map guid new) \<subseteq> A \<and>
            set (map guid new) \<inter> set (map guid (dispatchers w)) = {})"

text \<open>
  What is asked of \<open>FrameDispatcher.from\<close>, which is not among the sources: called for a
  frame with its guid in \<open>G\<close>, it sets no more than disposed flags and adds dispatchers
  with new guids from \<open>G\<close>.
\<close>

definition frameFactoryAdds :: "frame_factory \<Rightarrow> string set \<Rightarrow> bool" where
  "frameFactoryAdds F G = (\<forall>w scope f. frame_guid f \<in> G \<longrightarrow> growsBy G w (snd (F w scope f)))"

subsection \<open>An example frame factory, request, response and route\<close>

text \<open>
  A stand-in for \<open>FrameDispatcher.from\<close> of the same shape as the four factories, a request
  that was redirected once, a response to it and a route for it; and a sequence of
  actions in which the root scope is disposed between calls of the factories.
\<close>

definition example_frame_factory :: frame_factory where
  "example_frame_factory w scope f =
     (case existingDispatcher w (frame_guid f) of
        Some result \<Rightarrow> (result, w)
      | None \<Rightarrow> Dispatcher_new w scope (frame_guid f) ''Frame'' (JObj []) False)"

definition example_request :: Request where
  "example_request =
     Request ''req2'' (Frame ''frame1'') ''http://b/'' ''document'' ''GET'' None (JObj []) True
       (Some (Request ''req1'' (Frame ''frame1'') ''http://a/'' ''document'' ''GET'' None
                (JObj []) True None))"

definition example_response :: Response where
  "example_response =
     \<lparr> response_guid = ''resp1'', response_request = example_request,
       response_url = ''http://b/'', status = 200, statusText = ''OK'',
       response_headers = JObj [], timing = JObj [] \<rparr>"

definition example_route :: Route where
  "example_route = \<lparr> route_guid = ''route1'', route_request = example_request \<rparr>"

definition example_server_actions :: "server_action list" where
  "example_server_actions =
     [RouteFrom example_root example_route,
      Lifecycle (DisposeDispatcher ''root''),
      ResponseFrom example_root example_response,
      Lifecycle (FetchRequestFrom example_root example_fetchRequest),
      Lifecycle (ObjectEmits ''fetch1'' FetchRequest_Dispose JUndefined),
      RequestFrom example_root example_request]"

section \<open>Facts about the string primitives\<close>

lemma indexOf_from_absent: "c \<notin> set s \<Longrightarrow> indexOf_from c s i = - 1"
  by (induction s arbitrary: i) auto

lemma indexOf_from_first:
  "k < length s \<Longrightarrow> s ! k = c \<Longrightarrow> (\<forall>j<k. s ! j \<noteq> c) \<Longrightarrow> indexOf_from c s i = i + int k"
proof (induction s arbitrary: i k)
  case Nil
  then show ?case by simp
next
  case (Cons x xs)
  show ?case
  proof (cases k)
    case 0
    with Cons.prems show ?thesis by simp
  next
    case (Suc k')
    from Cons.prems Suc have ne: "x \<noteq> c" by auto
    from Cons.prems Suc have "k' < length xs" "xs ! k' = c" by auto
    moreover from Cons.prems Suc have "\<forall>j<k'. xs ! j \<noteq> c" by auto
    ultimately have "indexOf_from c xs (i + 1) = i + 1 + int k'"
      by (rule Cons.IH)
    with ne Suc show ?thesis by simp
  qed
qed

lemma indexOf_absent: "c \<notin> set s \<Longrightarrow> indexOf s c = - 1"
  by (simp add: indexOf_def indexOf_from_absent)

lemma indexOf_first:
  "k < length s \<Longrightarrow> s ! k = c \<Longrightarrow> (\<forall>j<k. s ! j \<noteq> c) \<Longrightarrow> indexOf s c = int k"
  by (simp add: indexOf_def indexOf_from_first)

section \<open>Properties of splitErrorMessage\<close>

text \<open>
  C9. A string without a colon is returned whole as the message, with an empty name.
  When the first colon of \<open>s\<close> is at index \<open>k\<close>, the name is the prefix \<open>s[0..k)\<close>, and the
  message is the part of \<open>s\<close> from index \<open>k + 2\<close> when \<open>k + 2 \<le> length s\<close>, and the whole
  of \<open>s\<close> otherwise.
\<close>

theorem splitErrorMessage_spec:
  "(CHR '':'' \<notin> set s \<longrightarrow> splitErrorMessage s = \<lparr> name = '''', message = s \<rparr>) \<and>
   (k < length s \<and> s ! k = CHR '':'' \<and> (\<forall>j<k. s ! j \<noteq> CHR '':'') \<longrightarrow>
      name (splitErrorMessage s) = take k s \<and>
      message (splitErrorMessage s) = (if k + 2 \<le> length s then drop (k + 2) s else s))"
proof (intro conjI impI)
  assume "CHR '':'' \<notin> set s"
  then show "splitErrorMessage s = \<lparr> name = '''', message = s \<rparr>"
    by (simp add: splitErrorMessage_def Let_def indexOf_absent)
next
  assume h: "k < length s \<and> s ! k = CHR '':'' \<and> (\<forall>j<k. s ! j \<noteq> CHR '':'')"
  then have idx: "indexOf s (CHR '':'') = int k"
    by (simp add: indexOf_first)
  show "name (splitErrorMessage s) = take k s"
    by (simp add: splitErrorMessage_def Let_def idx slice_def)
  show "message (splitErrorMessage s) = (if k + 2 \<le> length s then drop (k + 2) s else s)"
    by (simp add: splitErrorMessage_def Let_def idx substring_def nat_add_distrib)
qed

theorem splitErrorMessage_spec_witness:
  "CHR '':'' \<notin> set ''timeout'' \<and>
   splitErrorMessage ''timeout'' = \<lparr> name = '''', message = ''timeout'' \<rparr> \<and>
   (5::nat) < length ''Error: boom'' \<and> ''Error: boom'' ! 5 = CHR '':'' \<and>
   name (splitErrorMessage ''Error: boom'') = ''Error'' \<and>
   message (splitErrorMessage ''Error: boom'') = ''boom''"
proof -
  have a: "CHR '':'' \<notin> set ''timeout''" by simp
  have b: "(5::nat) < length ''Error: boom'' \<and> ''Error: boom'' ! 5 = CHR '':'' \<and>
           (\<forall>j<5. ''Error: boom'' ! j \<noteq> CHR '':'')"
    by (simp add: numeral_eq_Suc less_Suc_eq)
  from a splitErrorMessage_spec [of "''timeout''" 0]
  have c: "splitErrorMessage ''timeout'' = \<lparr> name = '''', message = ''timeout'' \<rparr>"
    by blast
  from b splitErrorMessage_spec [of "''Error: boom''" 5]
  have d: "name (splitErrorMessage ''Error: boom'') = take 5 ''Error: boom'' \<and>
           message (splitErrorMessage ''Error: boom'') =
             (if (5::nat) + 2 \<le> length ''Error: boom'' then drop (5 + 2) ''Error: boom''
              else ''Error: boom'')"
    by blast
  from d have e: "name (splitErrorMessage ''Error: boom'') = ''Error'' \<and>
           message (splitErrorMessage ''Error: boom'') = ''boom''"
    by simp
  from a b c e show ?thesis by blast
qed


section \<open>The loop that finds the API entry\<close>

declare apiEntryLoop.simps [simp del]

lemma apiEntryLoop_none:
  "(\<forall>j\<ge>i. \<not> transitionAt ps j) \<Longrightarrow> apiEntryLoop env ps i = ('''', ps)"
proof (induction env ps i rule: apiEntryLoop.induct)
  case (1 env ps i)
  show ?case
  proof (cases "int i < int (length ps) - 1")
    case False
    then show ?thesis by (subst apiEntryLoop.simps) simp
  next
    case True
    from "1.prems" have nt: "\<not> transitionAt ps i" by simp
    with True have cond: "\<not> (inClient (ps ! i) \<and> \<not> inClient (ps ! (i + 1)))"
      by (auto simp: transitionAt_def)
    from "1.prems" have "\<forall>j\<ge>i + 1. \<not> transitionAt ps j" by simp
    with "1.IH" True cond have "apiEntryLoop env ps (i + 1) = ('''', ps)" by blast
    with True cond show ?thesis by (subst apiEntryLoop.simps) auto
  qed
qed

lemma apiEntryLoop_first:
  "i \<le> k \<Longrightarrow> transitionAt ps k \<Longrightarrow> (\<forall>j. i \<le> j \<and> j < k \<longrightarrow> \<not> transitionAt ps j) \<Longrightarrow>
   apiEntryLoop env ps i = (apiNameOf env (frame (ps ! k)), drop (k + 1) ps)"
proof (induction env ps i rule: apiEntryLoop.induct)
  case (1 env ps i)
  from "1.prems"(1,2) have inrange: "int i < int (length ps) - 1"
    by (auto simp: transitionAt_def)
  show ?case
  proof (cases "i = k")
    case True
    with "1.prems"(2) inrange show ?thesis
      by (subst apiEntryLoop.simps) (auto simp: transitionAt_def)
  next
    case False
    with "1.prems"(1) have lt: "i < k" by simp
    with "1.prems"(3) have "\<not> transitionAt ps i" by simp
    with inrange have cond: "\<not> (inClient (ps ! i) \<and> \<not> inClient (ps ! (i + 1)))"
      by (auto simp: transitionAt_def)
    from lt have le: "i + 1 \<le> k" by simp
    from "1.prems"(3) have "\<forall>j. i + 1 \<le> j \<and> j < k \<longrightarrow> \<not> transitionAt ps j" by simp
    with "1.IH" inrange cond le "1.prems"(2)
    have "apiEntryLoop env ps (i + 1) = (apiNameOf env (frame (ps ! k)), drop (k + 1) ps)"
      by blast
    with inrange cond show ?thesis by (subst apiEntryLoop.simps) auto
  qed
qed

lemma captureStackTrace_found:
  assumes "transitionAt (parseStack env (newErrorStack env 30)) k"
    and "\<forall>j<k. \<not> transitionAt (parseStack env (newErrorStack env 30)) j"
  shows "fst (captureStackTrace env g) =
           \<lparr> allFrames = map frame (parseStack env (newErrorStack env 30)),
             frames = map frame (drop (k + 1) (parseStack env (newErrorStack env 30))),
             frameTexts = map frameText (drop (k + 1) (parseStack env (newErrorStack env 30))),
             apiName = apiNameOf env (frame (parseStack env (newErrorStack env 30) ! k)) \<rparr>"
proof -
  from assms have "apiEntryLoop env (parseStack env (newErrorStack env 30)) 0 =
      (apiNameOf env (frame (parseStack env (newErrorStack env 30) ! k)),
       drop (k + 1) (parseStack env (newErrorStack env 30)))"
    by (intro apiEntryLoop_first) auto
  then show ?thesis by (simp add: captureStackTrace_def stackSnapshot_def Let_def)
qed

lemma captureStackTrace_not_found:
  assumes "\<forall>j. \<not> transitionAt (parseStack env (newErrorStack env 30)) j"
  shows "fst (captureStackTrace env g) =
           \<lparr> allFrames = map frame (parseStack env (newErrorStack env 30)),
             frames = map frame (parseStack env (newErrorStack env 30)),
             frameTexts = map frameText (parseStack env (newErrorStack env 30)),
             apiName = '''' \<rparr>"
proof -
  from assms have "apiEntryLoop env (parseStack env (newErrorStack env 30)) 0 =
      ('''', parseStack env (newErrorStack env 30))"
    by (intro apiEntryLoop_none) auto
  then show ?thesis by (simp add: captureStackTrace_def stackSnapshot_def Let_def)
qed

section \<open>Properties of captureStackTrace\<close>

text \<open>
  C1. Let \<open>ps\<close> be the parsed frames of the captured stack. If \<open>k\<close> is the deepest
  transition frame (in-client, with a next-outer frame that is not), the returned
  \<open>apiName\<close> is the function name of frame \<open>k\<close> with its first character lower-cased,
  and the empty string when that frame has no function name (absent or empty). When no
  transition exists, \<open>apiName\<close> is the empty string.
\<close>

theorem captureStackTrace_apiName:
  assumes "ps = parseStack env (newErrorStack env 30)"
  shows "(transitionAt ps k \<and> (\<forall>j<k. \<not> transitionAt ps j) \<longrightarrow>
            apiName (fst (captureStackTrace env g)) =
              (case function_name (frame (ps ! k)) of
                 None \<Rightarrow> ''''
               | Some f \<Rightarrow> if f = [] then '''' else toLowerCase env [hd f] @ tl f)) \<and>
         ((\<forall>j. \<not> transitionAt ps j) \<longrightarrow> apiName (fst (captureStackTrace env g)) = '''')"
proof (intro conjI impI)
  assume h: "transitionAt ps k \<and> (\<forall>j<k. \<not> transitionAt ps j)"
  from h assms have a: "transitionAt (parseStack env (newErrorStack env 30)) k"
    and b: "\<forall>j<k. \<not> transitionAt (parseStack env (newErrorStack env 30)) j"
    by simp_all
  from assms have "apiName (fst (captureStackTrace env g)) = apiNameOf env (frame (ps ! k))"
    by (simp add: captureStackTrace_found [OF a b])
  also have "\<dots> = (case function_name (frame (ps ! k)) of
                 None \<Rightarrow> ''''
               | Some f \<Rightarrow> if f = [] then '''' else toLowerCase env [hd f] @ tl f)"
    by (auto simp: apiNameOf_def hd_conv_nth drop_Suc split: option.splits)
  finally show "apiName (fst (captureStackTrace env g)) =
              (case function_name (frame (ps ! k)) of
                 None \<Rightarrow> ''''
               | Some f \<Rightarrow> if f = [] then '''' else toLowerCase env [hd f] @ tl f)" .
next
  assume "\<forall>j. \<not> transitionAt ps j"
  with assms have n: "\<forall>j. \<not> transitionAt (parseStack env (newErrorStack env 30)) j"
    by simp
  show "apiName (fst (captureStackTrace env g)) = ''''"
    by (simp add: captureStackTrace_not_found [OF n])
qed

text \<open>
  C3, as the code has it. When \<open>k\<close> is the deepest transition frame, \<open>frames\<close> is the part
  of \<open>allFrames\<close> strictly after frame \<open>k\<close>: the boundary frame and every frame before it
  are dropped, the first frame kept is the frame, not in-client, that called into the
  library, and every frame after it is kept in order, in-client or not. When no transition
  exists, \<open>frames\<close> equals \<open>allFrames\<close>.
\<close>

theorem captureStackTrace_frames:
  assumes "ps = parseStack env (newErrorStack env 30)"
  shows "(transitionAt ps k \<and> (\<forall>j<k. \<not> transitionAt ps j) \<longrightarrow>
            frames (fst (captureStackTrace env g)) = map frame (drop (k + 1) ps) \<and>
            frames (fst (captureStackTrace env g)) =
              drop (k + 1) (allFrames (fst (captureStackTrace env g))) \<and>
            \<not> inClient (ps ! (k + 1))) \<and>
         ((\<forall>j. \<not> transitionAt ps j) \<longrightarrow>
            frames (fst (captureStackTrace env g)) = allFrames (fst (captureStackTrace env g)))"
proof (intro conjI impI)
  assume h: "transitionAt ps k \<and> (\<forall>j<k. \<not> transitionAt ps j)"
  from h assms have a: "transitionAt (parseStack env (newErrorStack env 30)) k"
    and b: "\<forall>j<k. \<not> transitionAt (parseStack env (newErrorStack env 30)) j"
    by simp_all
  from assms show "frames (fst (captureStackTrace env g)) = map frame (drop (k + 1) ps)"
    by (simp add: captureStackTrace_found [OF a b])
  from assms show "frames (fst (captureStackTrace env g)) =
              drop (k + 1) (allFrames (fst (captureStackTrace env g)))"
    by (simp add: captureStackTrace_found [OF a b] drop_map)
  from h show "\<not> inClient (ps ! (k + 1))" by (simp add: transitionAt_def)
next
  assume "\<forall>j. \<not> transitionAt ps j"
  with assms have n: "\<forall>j. \<not> transitionAt (parseStack env (newErrorStack env 30)) j"
    by simp
  show "frames (fst (captureStackTrace env g)) = allFrames (fst (captureStackTrace env g))"
    by (simp add: captureStackTrace_not_found [OF n])
qed

text \<open>
  C8, as the code has it. The global state after the call is the global state before it,
  the stack-trace limit included. When \<open>new Error()\<close> runs, the global state is the one
  before the call with the limit set to 30 and nothing else changed, and the stack that is
  parsed is the one taken with the limit at 30. The limit is raised for the snapshot
  exactly when it was below 30 before the call.
\<close>

theorem captureStackTrace_restores_limit:
  "snd (captureStackTrace env g) = g \<and>
   allFrames (fst (captureStackTrace env g)) = map frame (parseStack env (newErrorStack env 30)) \<and>
   stackSnapshot env g = (g\<lparr> stackTraceLimit := 30 \<rparr>, newErrorStack env 30, g) \<and>
   (stackTraceLimit g < stackTraceLimit (fst (stackSnapshot env g))) = (stackTraceLimit g < 30)"
  by (simp add: captureStackTrace_def stackSnapshot_def Let_def split: prod.splits)

text \<open>
  C8 as the specification words it fails when the limit is 50 before the call: the limit
  in force for the snapshot is 30, which is lower and not higher, and the call still
  leaves the limit at 50.
\<close>

theorem captureStackTrace_limit_lowered:
  "stackTraceLimit (fst (stackSnapshot example_env \<lparr> stackTraceLimit = 50 \<rparr>)) = 30 \<and>
   \<not> stackTraceLimit \<lparr> stackTraceLimit = 50 \<rparr> <
       stackTraceLimit (fst (stackSnapshot example_env \<lparr> stackTraceLimit = 50 \<rparr>)) \<and>
   stackTraceLimit (fst (stackSnapshot example_env \<lparr> stackTraceLimit = 50 \<rparr>)) <
     stackTraceLimit \<lparr> stackTraceLimit = 50 \<rparr> \<and>
   snd (captureStackTrace example_env \<lparr> stackTraceLimit = 50 \<rparr>) = \<lparr> stackTraceLimit = 50 \<rparr>"
  by (simp add: captureStackTrace_def stackSnapshot_def Let_def split: prod.splits)

subsection \<open>The example runtime, evaluated\<close>

lemma example_parseStack: "parseStack example_env example_stack = example_parsed"
  by code_simp

lemma example_parseStack_empty:
  "parseStack (example_env\<lparr> newErrorStack := (\<lambda>limit. ''Error'') \<rparr>) ''Error'' = []"
  by code_simp

lemma example_transition:
  "transitionAt example_parsed 1 \<and> (\<forall>j<1. \<not> transitionAt example_parsed j)"
  by (simp add: transitionAt_def example_parsed_def)

theorem captureStackTrace_apiName_witness:
  "apiName (fst (captureStackTrace example_env \<lparr> stackTraceLimit = 10 \<rparr>)) = ''page.goto'' \<and>
   apiName (fst (captureStackTrace (example_env\<lparr> newErrorStack := (\<lambda>limit. ''Error'') \<rparr>)
                   \<lparr> stackTraceLimit = 10 \<rparr>)) = ''''"
proof -
  have ps: "example_parsed = parseStack example_env (newErrorStack example_env 30)"
    using example_parseStack by (simp add: example_env_def)
  from captureStackTrace_apiName [OF ps, of 1 "\<lparr> stackTraceLimit = 10 \<rparr>"] example_transition
  have "apiName (fst (captureStackTrace example_env \<lparr> stackTraceLimit = 10 \<rparr>)) =
          (case function_name (frame (example_parsed ! 1)) of
             None \<Rightarrow> ''''
           | Some f \<Rightarrow> if f = [] then '''' else toLowerCase example_env [hd f] @ tl f)"
    by blast
  then have a: "apiName (fst (captureStackTrace example_env \<lparr> stackTraceLimit = 10 \<rparr>)) =
                  ''page.goto''"
    by (simp add: example_parsed_def example_env_def ascii_toLowerCase_def)
  have ps': "[] = parseStack (example_env\<lparr> newErrorStack := (\<lambda>limit. ''Error'') \<rparr>)
                    (newErrorStack (example_env\<lparr> newErrorStack := (\<lambda>limit. ''Error'') \<rparr>) 30)"
    using example_parseStack_empty by simp
  have none: "\<forall>j. \<not> transitionAt [] j"
    by (simp add: transitionAt_def)
  from captureStackTrace_apiName [OF ps', of 0 "\<lparr> stackTraceLimit = 10 \<rparr>"] none
  have b: "apiName (fst (captureStackTrace (example_env\<lparr> newErrorStack := (\<lambda>limit. ''Error'') \<rparr>)
                   \<lparr> stackTraceLimit = 10 \<rparr>)) = ''''"
    by blast
  from a b show ?thesis by blast
qed

theorem captureStackTrace_frames_witness:
  "frames (fst (captureStackTrace example_env \<lparr> stackTraceLimit = 10 \<rparr>)) =
     map frame (drop 2 example_parsed) \<and>
   frames (fst (captureStackTrace (example_env\<lparr> newErrorStack := (\<lambda>limit. ''Error'') \<rparr>)
                   \<lparr> stackTraceLimit = 10 \<rparr>)) =
   allFrames (fst (captureStackTrace (example_env\<lparr> newErrorStack := (\<lambda>limit. ''Error'') \<rparr>)
                   \<lparr> stackTraceLimit = 10 \<rparr>))"
proof -
  have ps: "example_parsed = parseStack example_env (newErrorStack example_env 30)"
    using example_parseStack by (simp add: example_env_def)
  from captureStackTrace_frames [OF ps, of 1 "\<lparr> stackTraceLimit = 10 \<rparr>"] example_transition
  have "frames (fst (captureStackTrace example_env \<lparr> stackTraceLimit = 10 \<rparr>)) =
          map frame (drop (1 + 1) example_parsed)"
    by blast
  then have a: "frames (fst (captureStackTrace example_env \<lparr> stackTraceLimit = 10 \<rparr>)) =
          map frame (drop 2 example_parsed)"
    by (simp add: numeral_2_eq_2)
  have ps': "[] = parseStack (example_env\<lparr> newErrorStack := (\<lambda>limit. ''Error'') \<rparr>)
                    (newErrorStack (example_env\<lparr> newErrorStack := (\<lambda>limit. ''Error'') \<rparr>) 30)"
    using example_parseStack_empty by simp
  have none: "\<forall>j. \<not> transitionAt [] j"
    by (simp add: transitionAt_def)
  from captureStackTrace_frames [OF ps', of 0 "\<lparr> stackTraceLimit = 10 \<rparr>"] none
  have b: "frames (fst (captureStackTrace (example_env\<lparr> newErrorStack := (\<lambda>limit. ''Error'') \<rparr>)
                   \<lparr> stackTraceLimit = 10 \<rparr>)) =
   allFrames (fst (captureStackTrace (example_env\<lparr> newErrorStack := (\<lambda>limit. ''Error'') \<rparr>)
                   \<lparr> stackTraceLimit = 10 \<rparr>))"
    by blast
  from a b show ?thesis by blast
qed

text \<open>
  C3 as the specification words it fails on the example stack: frame 1, \<open>Page.goto\<close>, is
  the deepest boundary frame and is not among the returned frames, and frame 3,
  \<open>Page.waitFor\<close>, is in-client, is not the boundary frame, and is returned.
\<close>

theorem captureStackTrace_boundary_dropped:
  "transitionAt (parseStack example_env (newErrorStack example_env 30)) 1 \<and>
   frame (parseStack example_env (newErrorStack example_env 30) ! 1) \<notin>
     set (frames (fst (captureStackTrace example_env \<lparr> stackTraceLimit = 10 \<rparr>))) \<and>
   inClient (parseStack example_env (newErrorStack example_env 30) ! 3) \<and>
   frame (parseStack example_env (newErrorStack example_env 30) ! 3) \<in>
     set (frames (fst (captureStackTrace example_env \<lparr> stackTraceLimit = 10 \<rparr>))) \<and>
   map file_path (frames (fst (captureStackTrace example_env \<lparr> stackTraceLimit = 10 \<rparr>))) =
     [''/app/main.js'', ''/pw/lib/client/page.js'', ''/app/main.js'']"
proof -
  have ps: "parseStack example_env (newErrorStack example_env 30) = example_parsed"
    using example_parseStack by (simp add: example_env_def)
  have a: "transitionAt example_parsed 1" and b: "\<forall>j<1. \<not> transitionAt example_parsed j"
    using example_transition by simp_all
  have fr: "frames (fst (captureStackTrace example_env \<lparr> stackTraceLimit = 10 \<rparr>)) =
              map frame (drop 2 example_parsed)"
    using captureStackTrace_found [of example_env 1 "\<lparr> stackTraceLimit = 10 \<rparr>"] a b
    by (simp add: ps numeral_2_eq_2)
  show ?thesis
    unfolding ps fr using a by (simp add: example_parsed_def numeral_2_eq_2 numeral_3_eq_3)
qed


section \<open>Properties of rewriteErrorMessage\<close>

lemma split_str_nonempty: "split_str s c \<noteq> []"
  by (induction s) (auto split: list.splits)

lemma split_str_no_sep: "l \<in> set (split_str s c) \<Longrightarrow> c \<notin> set l"
proof (induction s arbitrary: l)
  case Nil
  then show ?case by simp
next
  case (Cons x xs)
  show ?case
  proof (cases "x = c")
    case True
    with Cons show ?thesis by auto
  next
    case False
    obtain k ks where sp: "split_str xs c = k # ks"
      using split_str_nonempty [of xs c] by (cases "split_str xs c") auto
    with False Cons.prems have "l = x # k \<or> l \<in> set ks" by auto
    then show ?thesis
    proof
      assume "l = x # k"
      moreover from sp Cons.IH [of k] have "c \<notin> set k" by simp
      ultimately show ?thesis using False by auto
    next
      assume "l \<in> set ks"
      with sp Cons.IH [of l] show ?thesis by simp
    qed
  qed
qed

lemma split_str_line: "c \<notin> set l \<Longrightarrow> split_str l c = [l]"
  by (induction l) auto

lemma split_str_append: "c \<notin> set l \<Longrightarrow> split_str (l @ c # rest) c = l # split_str rest c"
  by (induction l) auto

lemma split_join_str:
  "ls \<noteq> [] \<Longrightarrow> (\<forall>l\<in>set ls. c \<notin> set l) \<Longrightarrow> split_str (join_str ls [c]) c = ls"
proof (induction ls "[c]" rule: join_str.induct)
  case 1
  then show ?case by simp
next
  case (2 l)
  then show ?case by (simp add: split_str_line)
next
  case (3 l k ks)
  then show ?case by (simp add: split_str_append)
qed

text \<open>
  C2. \<open>rewriteErrorMessage\<close> returns the reference it was given; in the new store that
  error has the new message and its old name, and every other object is untouched. When
  the old stack has at least one line starting with four spaces and \<open>at\<close>, the new stack
  is the title line \<open>name: message\<close> followed by exactly those lines, in order, joined by
  newlines (so, for a title without a newline, its lines are the title and the frame
  lines); otherwise the stack is left as it was.
\<close>

theorem rewriteErrorMessage_spec:
  assumes "rewriteErrorMessage h e m = (h', r)"
  shows "r = e \<and> message (h' e) = m \<and> name (h' e) = name (h e) \<and>
         (\<forall>e'. e' \<noteq> e \<longrightarrow> h' e' = h e') \<and>
         (\<forall>s. stack (h e) = Some s \<and> frameLines s \<noteq> [] \<longrightarrow>
            stack (h' e) = Some ((name (h e) @ '': '' @ m) @ [NL] @ join_str (frameLines s) [NL]) \<and>
            (NL \<notin> set (name (h e) @ '': '' @ m) \<longrightarrow>
               split_str (the (stack (h' e))) NL = (name (h e) @ '': '' @ m) # frameLines s)) \<and>
         ((\<forall>s. stack (h e) = Some s \<longrightarrow> frameLines s = []) \<longrightarrow> stack (h' e) = stack (h e))"
proof (intro conjI allI impI)
  show "r = e" using assms by (simp add: rewriteErrorMessage_def Let_def)
  show "message (h' e) = m" using assms by (auto simp: rewriteErrorMessage_def Let_def)
  show "name (h' e) = name (h e)" using assms by (auto simp: rewriteErrorMessage_def Let_def)
  show "h' e' = h e'" if "e' \<noteq> e" for e'
    using assms that by (auto simp: rewriteErrorMessage_def Let_def)
next
  fix s assume s: "stack (h e) = Some s \<and> frameLines s \<noteq> []"
  then show st: "stack (h' e) = Some ((name (h e) @ '': '' @ m) @ [NL] @ join_str (frameLines s) [NL])"
    using assms by (auto simp: rewriteErrorMessage_def Let_def frameLines_def)
  assume t: "NL \<notin> set (name (h e) @ '': '' @ m)"
  have "\<forall>l\<in>set (frameLines s). NL \<notin> set l"
    by (auto simp: frameLines_def dest: split_str_no_sep)
  with s have "split_str (join_str (frameLines s) [NL]) NL = frameLines s"
    by (simp add: split_join_str)
  with t show "split_str (the (stack (h' e))) NL = (name (h e) @ '': '' @ m) # frameLines s"
    unfolding st option.sel using split_str_append [of NL "name (h e) @ '': '' @ m"] by simp
next
  assume "\<forall>s. stack (h e) = Some s \<longrightarrow> frameLines s = []"
  then show "stack (h' e) = stack (h e)"
    using assms by (auto simp: rewriteErrorMessage_def Let_def frameLines_def split: option.splits)
qed


lemma example_frameLines:
  "frameLines example_error_stack =
     [''    at a (x.js:1:1)'', ''    at b (y.js:2:2)'']"
  by (simp add: example_error_stack_def frameLines_def NL_def startsWith_def)

theorem rewriteErrorMessage_spec_witness:
  "snd (rewriteErrorMessage example_store 0 ''new'') = 0 \<and>
   message (fst (rewriteErrorMessage example_store 0 ''new'') 0) = ''new'' \<and>
   name (fst (rewriteErrorMessage example_store 0 ''new'') 0) = ''Error'' \<and>
   stack (fst (rewriteErrorMessage example_store 0 ''new'') 0) =
     Some (join_str [''Error: new'', ''    at a (x.js:1:1)'', ''    at b (y.js:2:2)''] [NL]) \<and>
   stack (fst (rewriteErrorMessage example_store 1 ''new'') 1) = None"
proof -
  have p0: "rewriteErrorMessage example_store 0 ''new'' =
              (fst (rewriteErrorMessage example_store 0 ''new''),
               snd (rewriteErrorMessage example_store 0 ''new''))"
    by simp
  have p1: "rewriteErrorMessage example_store 1 ''new'' =
              (fst (rewriteErrorMessage example_store 1 ''new''),
               snd (rewriteErrorMessage example_store 1 ''new''))"
    by simp
  have s0: "stack (example_store 0) =
              Some example_error_stack \<and>
            frameLines example_error_stack \<noteq> []"
    by (simp add: example_store_def example_frameLines)
  have s1: "\<forall>s. stack (example_store 1) = Some s \<longrightarrow> frameLines s = []"
    by (simp add: example_store_def)
  from rewriteErrorMessage_spec [OF p0] s0
  have a: "snd (rewriteErrorMessage example_store 0 ''new'') = 0 \<and>
     message (fst (rewriteErrorMessage example_store 0 ''new'') 0) = ''new'' \<and>
     name (fst (rewriteErrorMessage example_store 0 ''new'') 0) = name (example_store 0) \<and>
     stack (fst (rewriteErrorMessage example_store 0 ''new'') 0) =
       Some ((name (example_store 0) @ '': '' @ ''new'') @ [NL] @
             join_str (frameLines example_error_stack) [NL])"
    by blast
  from rewriteErrorMessage_spec [OF p1] s1
  have b: "stack (fst (rewriteErrorMessage example_store 1 ''new'') 1) = stack (example_store 1)"
    by blast
  from a b show ?thesis
    by (simp add: example_frameLines) (simp add: example_store_def)
qed



section \<open>Properties of the dispatcher factories\<close>

lemma existingDispatcher_guid: "existingDispatcher w g = Some d \<Longrightarrow> guid d = g"
  by (auto simp: existingDispatcher_def find_Some_iff)

lemma Dispatcher_new_existing:
  "Dispatcher_new w parent g type initializer scoped = (d, w') \<Longrightarrow>
   guid d = g \<and> existingDispatcher w' g = Some d"
  by (auto simp: Dispatcher_new_def Let_def existingDispatcher_def)

lemma RequestDispatcher_new_existing:
  assumes "RequestDispatcher_new F w scope request = (d, w')"
  shows "guid d = request_guid request \<and> existingDispatcher w' (request_guid request) = Some d"
proof -
  obtain fd w1 where f: "F w scope (request_frame request) = (fd, w1)"
    by (cases "F w scope (request_frame request)")
  obtain rd w2 where r: "RequestDispatcher_fromNullable F w1 scope (redirectedFrom request) = (rd, w2)"
    by (cases "RequestDispatcher_fromNullable F w1 scope (redirectedFrom request)")
  from assms f r show ?thesis
    by (simp add: Let_def Dispatcher_new_existing)
qed

lemma RequestDispatcher_from_existing:
  assumes "RequestDispatcher_from F w scope request = (d, w')"
  shows "guid d = request_guid request \<and> existingDispatcher w' (request_guid request) = Some d"
proof (cases "existingDispatcher w (request_guid request)")
  case None
  with assms have "RequestDispatcher_new F w scope request = (d, w')" by simp
  then show ?thesis by (rule RequestDispatcher_new_existing)
next
  case (Some e)
  with assms show ?thesis by (auto dest: existingDispatcher_guid)
qed

lemma ResponseDispatcher_from_existing:
  assumes "ResponseDispatcher_from F w scope response = (d, w')"
  shows "guid d = response_guid response \<and> existingDispatcher w' (response_guid response) = Some d"
proof (cases "existingDispatcher w (response_guid response)")
  case None
  obtain rd w1 where r: "RequestDispatcher_from F w scope (response_request response) = (rd, w1)"
    by (cases "RequestDispatcher_from F w scope (response_request response)")
  from assms None r show ?thesis
    by (simp add: ResponseDispatcher_from_def ResponseDispatcher_new_def Dispatcher_new_existing)
next
  case (Some e)
  with assms show ?thesis
    by (auto simp: ResponseDispatcher_from_def dest: existingDispatcher_guid)
qed

lemma RouteDispatcher_from_existing:
  assumes "RouteDispatcher_from F w scope route = (d, w')"
  shows "guid d = route_guid route \<and> existingDispatcher w' (route_guid route) = Some d"
proof (cases "existingDispatcher w (route_guid route)")
  case None
  obtain rd w1 where r: "RequestDispatcher_from F w scope (route_request route) = (rd, w1)"
    by (cases "RequestDispatcher_from F w scope (route_request route)")
  from assms None r show ?thesis
    by (simp add: RouteDispatcher_from_def RouteDispatcher_new_def Dispatcher_new_existing)
next
  case (Some e)
  with assms show ?thesis
    by (auto simp: RouteDispatcher_from_def dest: existingDispatcher_guid)
qed

lemma existingDispatcher_listeners [simp]:
  "existingDispatcher (w\<lparr> listeners := ls \<rparr>) g = existingDispatcher w g"
  by (simp add: existingDispatcher_def)

lemma FetchRequestDispatcher_from_existing:
  assumes "FetchRequestDispatcher_from w scope request = (d, w')"
  shows "guid d = fetchRequest_guid request \<and>
         existingDispatcher w' (fetchRequest_guid request) = Some d"
proof (cases "existingDispatcher w (fetchRequest_guid request)")
  case None
  obtain this w0 where n: "Dispatcher_new w scope (fetchRequest_guid request) ''FetchRequest''
                             (JObj []) True = (this, w0)"
    by (cases "Dispatcher_new w scope (fetchRequest_guid request) ''FetchRequest'' (JObj []) True")
  from n have "guid this = fetchRequest_guid request \<and>
               existingDispatcher w0 (fetchRequest_guid request) = Some this"
    by (rule Dispatcher_new_existing)
  with assms None n show ?thesis
    by (auto simp: FetchRequestDispatcher_from_def FetchRequestDispatcher_new_def emitter_once_def)
next
  case (Some e)
  with assms show ?thesis
    by (auto simp: FetchRequestDispatcher_from_def dest: existingDispatcher_guid)
qed


subsection \<open>A dispatcher once made is the one found later\<close>

lemma guid_forgetDisposed [simp]: "guid (forgetDisposed d) = guid d"
  by (simp add: forgetDisposed_def)

lemma guids_forgetDisposed [simp]: "map guid (map forgetDisposed ds) = map guid ds"
  by (simp add: comp_def)

lemma growsBy_refl: "growsBy A w w"
  by (auto simp: growsBy_def)

lemma growsBy_same:
  "map forgetDisposed (dispatchers w') = map forgetDisposed (dispatchers w) \<Longrightarrow> growsBy A w w'"
  by (auto simp: growsBy_def)

lemma growsBy_guids:
  assumes "growsBy A w w'"
  shows "set (map guid (dispatchers w')) \<subseteq> A \<union> set (map guid (dispatchers w))"
proof -
  from assms obtain new where n:
    "map forgetDisposed (dispatchers w') = new @ map forgetDisposed (dispatchers w)"
    "set (map guid new) \<subseteq> A"
    by (auto simp: growsBy_def)
  have "map guid (dispatchers w') = map guid (map forgetDisposed (dispatchers w'))" by simp
  also have "\<dots> = map guid new @ map guid (dispatchers w)" unfolding n(1) by simp
  finally show ?thesis using n(2) by auto
qed

lemma growsBy_trans:
  assumes "growsBy A w w1" and "growsBy B w1 w2"
  shows "growsBy (A \<union> B) w w2"
proof -
  from assms(1) obtain n1 where n1:
    "map forgetDisposed (dispatchers w1) = n1 @ map forgetDisposed (dispatchers w)"
    "distinct (map guid n1)" "set (map guid n1) \<subseteq> A"
    "set (map guid n1) \<inter> set (map guid (dispatchers w)) = {}"
    by (auto simp: growsBy_def)
  from assms(2) obtain n2 where n2:
    "map forgetDisposed (dispatchers w2) = n2 @ map forgetDisposed (dispatchers w1)"
    "distinct (map guid n2)" "set (map guid n2) \<subseteq> B"
    "set (map guid n2) \<inter> set (map guid (dispatchers w1)) = {}"
    by (auto simp: growsBy_def)
  have g1: "map guid (dispatchers w1) = map guid n1 @ map guid (dispatchers w)"
  proof -
    have "map guid (dispatchers w1) = map guid (map forgetDisposed (dispatchers w1))" by simp
    also have "\<dots> = map guid n1 @ map guid (dispatchers w)" unfolding n1(1) by simp
    finally show ?thesis .
  qed
  have a: "map forgetDisposed (dispatchers w2) = (n2 @ n1) @ map forgetDisposed (dispatchers w)"
    using n1(1) n2(1) by simp
  have b: "distinct (map guid (n2 @ n1))"
    using n1(2) n2(2) n2(4) g1 by auto
  have c: "set (map guid (n2 @ n1)) \<subseteq> A \<union> B"
    using n1(3) n2(3) by auto
  have d: "set (map guid (n2 @ n1)) \<inter> set (map guid (dispatchers w)) = {}"
    using n1(4) n2(4) g1 by auto
  from a b c d show ?thesis unfolding growsBy_def by blast
qed

lemma growsBy_mono: "growsBy A w w' \<Longrightarrow> A \<subseteq> B \<Longrightarrow> growsBy B w w'"
  by (auto simp: growsBy_def)

lemma growsBy_distinct:
  assumes "growsBy A w w'" and "distinct (map guid (dispatchers w))"
  shows "distinct (map guid (dispatchers w'))"
proof -
  from assms(1) obtain new where n:
    "map forgetDisposed (dispatchers w') = new @ map forgetDisposed (dispatchers w)"
    "distinct (map guid new)"
    "set (map guid new) \<inter> set (map guid (dispatchers w)) = {}"
    by (auto simp: growsBy_def)
  have "map guid (dispatchers w') = map guid (map forgetDisposed (dispatchers w'))" by simp
  also have "\<dots> = map guid new @ map guid (dispatchers w)" unfolding n(1) by simp
  finally show ?thesis using n(2,3) assms(2) by auto
qed

lemma find_forgetDisposed:
  "find (\<lambda>d. guid d = g) (map forgetDisposed ds) =
     map_option forgetDisposed (find (\<lambda>d. guid d = g) ds)"
  by (induction ds) auto

lemma find_append_absent:
  "g \<notin> set (map guid new) \<Longrightarrow> find (\<lambda>d. guid d = g) (new @ ds) = find (\<lambda>d. guid d = g) ds"
  by (induction new) auto

lemma growsBy_existing:
  assumes "growsBy A w w'" and "existingDispatcher w g = Some d"
  shows "existingDispatcher w' g = Some (d\<lparr> disposed := disposedOf w' g \<rparr>)"
proof -
  from assms(1) obtain new where n:
    "map forgetDisposed (dispatchers w') = new @ map forgetDisposed (dispatchers w)"
    "set (map guid new) \<inter> set (map guid (dispatchers w)) = {}"
    by (auto simp: growsBy_def)
  from assms(2) have "d \<in> set (dispatchers w)" "guid d = g"
    by (auto simp: existingDispatcher_def find_Some_iff)
  then have "g \<in> set (map guid (dispatchers w))" by auto
  with n(2) have absent: "g \<notin> set (map guid new)" by auto
  have "map_option forgetDisposed (find (\<lambda>x. guid x = g) (dispatchers w')) =
          find (\<lambda>x. guid x = g) (map forgetDisposed (dispatchers w'))"
    by (simp add: find_forgetDisposed)
  also have "\<dots> = find (\<lambda>x. guid x = g) (map forgetDisposed (dispatchers w))"
    unfolding n(1) using absent by (rule find_append_absent)
  also have "\<dots> = Some (forgetDisposed d)"
    using assms(2) by (simp add: find_forgetDisposed existingDispatcher_def)
  finally obtain d' where d': "find (\<lambda>x. guid x = g) (dispatchers w') = Some d'"
    "forgetDisposed d' = forgetDisposed d"
    by auto
  from d'(2) have "d' = d\<lparr> disposed := disposed d' \<rparr>"
    by (cases d, cases d') (simp add: forgetDisposed_def)
  with d'(1) show ?thesis
    by (simp add: existingDispatcher_def disposedOf_def)
qed

lemma forget_disposeOne:
  "map forgetDisposed (dispatchers (disposeOne w m)) = map forgetDisposed (dispatchers w)"
  by (simp add: disposeOne_def comp_def forgetDisposed_def split: option.splits)

lemma forget_fold_disposeOne:
  "map forgetDisposed (dispatchers (fold (\<lambda>m w'. disposeOne w' m) ms w)) =
     map forgetDisposed (dispatchers w)"
  by (induction ms arbitrary: w) (simp_all add: forget_disposeOne)

lemma forget_Dispatcher_dispose:
  "map forgetDisposed (dispatchers (Dispatcher_dispose w g)) = map forgetDisposed (dispatchers w)"
  by (simp add: Dispatcher_dispose_def forget_fold_disposeOne)

lemma forget_runHandler:
  "map forgetDisposed (dispatchers (runHandler w h arg)) = map forgetDisposed (dispatchers w)"
  by (cases h) (simp_all add: Dispatcher_dispatchEvent_def forget_Dispatcher_dispose)

lemma forget_fold_runHandler:
  "map forgetDisposed (dispatchers (fold (\<lambda>l w'. runHandler w' (handler l) arg) ls w)) =
     map forgetDisposed (dispatchers w)"
  by (induction ls arbitrary: w) (simp_all add: forget_runHandler)

lemma forget_emit:
  "map forgetDisposed (dispatchers (emit w obj ev arg)) = map forgetDisposed (dispatchers w)"
  by (simp add: emit_def Let_def forget_fold_runHandler)

lemma growsBy_Dispatcher_new:
  assumes "existingDispatcher w g = None"
  shows "growsBy {g} w (snd (Dispatcher_new w parent g type initializer scoped))"
proof -
  from assms have "g \<notin> set (map guid (dispatchers w))"
    by (auto simp: existingDispatcher_def find_None_iff)
  then show ?thesis
    unfolding growsBy_def
    by (intro exI [of _ "[forgetDisposed \<lparr> guid = g, dtype = type, parentScope = Some (guid parent),
                isScope = scoped, disposed = False \<rparr>]"])
       (simp add: Dispatcher_new_def Let_def)
qed

lemma growsBy_absent:
  assumes "growsBy A w w'" and "existingDispatcher w g = None" and "g \<notin> A"
  shows "existingDispatcher w' g = None"
proof -
  from assms(2) have "g \<notin> set (map guid (dispatchers w))"
    by (auto simp: existingDispatcher_def find_None_iff)
  with growsBy_guids [OF assms(1)] assms(3) have "g \<notin> set (map guid (dispatchers w'))"
    by auto
  then show ?thesis by (auto simp: existingDispatcher_def find_None_iff)
qed

lemma growsBy_FetchRequestDispatcher_from:
  "growsBy {fetchRequest_guid request} w (snd (FetchRequestDispatcher_from w scope request))"
proof (cases "existingDispatcher w (fetchRequest_guid request)")
  case None
  have "map forgetDisposed (dispatchers (snd (FetchRequestDispatcher_new w scope request))) =
        map forgetDisposed (dispatchers (snd (Dispatcher_new w scope (fetchRequest_guid request)
           ''FetchRequest'' (JObj []) True)))"
    by (simp add: FetchRequestDispatcher_new_def emitter_once_def split: prod.splits)
  with growsBy_Dispatcher_new [OF None, of scope "''FetchRequest''" "JObj []" True]
  have "growsBy {fetchRequest_guid request} w (snd (FetchRequestDispatcher_new w scope request))"
    by (simp add: growsBy_def)
  with None show ?thesis by (simp add: FetchRequestDispatcher_from_def)
next
  case (Some d)
  then show ?thesis by (simp add: FetchRequestDispatcher_from_def growsBy_refl)
qed

lemma growsBy_step: "\<exists>A. growsBy A w (step w a)"
proof (cases a)
  case (ObjectEmits obj ev arg)
  have "growsBy {} w (emit w obj ev arg)"
    by (rule growsBy_same) (rule forget_emit)
  with ObjectEmits show ?thesis by auto
next
  case (DisposeDispatcher g)
  have "growsBy {} w (Dispatcher_dispose w g)"
    by (rule growsBy_same) (rule forget_Dispatcher_dispose)
  with DisposeDispatcher show ?thesis by auto
next
  case (FetchRequestFrom scope request)
  then show ?thesis using growsBy_FetchRequestDispatcher_from by auto
qed

lemma growsBy_RequestDispatcher_from:
  assumes F: "frameFactoryAdds F G"
  shows "wellFormedRequest G request \<Longrightarrow>
         growsBy (G \<union> set (chainGuids request)) w (snd (RequestDispatcher_from F w scope request))"
proof (induction request arbitrary: w)
  case (Request g fr u rt m pd h nav rf)
  let ?r = "Request g fr u rt m pd h nav rf"
  let ?tail = "case rf of None \<Rightarrow> [] | Some r \<Rightarrow> chainGuids r"
  from Request.prems have wf: "g \<notin> set ?tail" "g \<notin> G" "frame_guid fr \<in> G"
    by (auto simp: wellFormedRequest_def)
  show ?case
  proof (cases "existingDispatcher w g")
    case (Some d)
    then show ?thesis by (simp add: growsBy_refl)
  next
    case None
    obtain fd w1 where f: "F w scope fr = (fd, w1)" by (cases "F w scope fr")
    from F wf(3) have "growsBy G w (snd (F w scope fr))"
      unfolding frameFactoryAdds_def by blast
    with f have g1: "growsBy G w w1" by simp
    obtain rd w2 where r: "RequestDispatcher_fromNullable F w1 scope rf = (rd, w2)"
      by (cases "RequestDispatcher_fromNullable F w1 scope rf")
    have g2: "growsBy (G \<union> set ?tail) w1 w2"
    proof (cases rf)
      case None
      with r show ?thesis by (simp add: growsBy_refl)
    next
      case (Some r')
      from Request.prems Some have wf': "wellFormedRequest G r'"
        by (auto simp: wellFormedRequest_def)
      from Some have mem: "r' \<in> set_option rf" by simp
      have "growsBy (G \<union> set (chainGuids r')) w1 (snd (RequestDispatcher_from F w1 scope r'))"
        by (rule Request.IH [OF mem wf'])
      with r Some show ?thesis by (simp split: prod.splits)
    qed
    from growsBy_trans [OF g1 g2] have g12: "growsBy (G \<union> set ?tail) w w2"
      by (simp add: Un_assoc [symmetric])
    from growsBy_absent [OF g12 None] wf have none2: "existingDispatcher w2 g = None"
      by auto
    have res: "RequestDispatcher_from F w scope ?r =
                 Dispatcher_new w2 scope g ''Request''
                   (JObj [(''frame'', JChannel (guid fd)),
                        (''url'', JStr u),
                        (''resourceType'', JStr rt),
                        (''method'', JStr m),
                        (''postData'', case pd of
                                         None \<Rightarrow> JUndefined
                                       | Some buffer \<Rightarrow> JStr (toString_base64 buffer)),
                        (''headers'', h),
                        (''isNavigationRequest'', JBool nav),
                        (''redirectedFrom'', case rd of
                                               None \<Rightarrow> JUndefined
                                             | Some d \<Rightarrow> JChannel (guid d))])
                   False"
      using None f r by (simp add: Let_def)
    have g3: "growsBy {g} w2 (snd (RequestDispatcher_from F w scope ?r))"
      unfolding res by (rule growsBy_Dispatcher_new [OF none2])
    from growsBy_trans [OF g12 g3] show ?thesis
      by (rule growsBy_mono) auto
  qed
qed

lemma growsBy_ResponseDispatcher_from:
  assumes "frameFactoryAdds F G" and "wellFormedAction G (ResponseFrom scope response)"
  shows "\<exists>A. growsBy A w (snd (ResponseDispatcher_from F w scope response))"
proof (cases "existingDispatcher w (response_guid response)")
  case (Some d)
  then show ?thesis by (auto simp: ResponseDispatcher_from_def intro: growsBy_refl)
next
  case None
  let ?A = "G \<union> set (chainGuids (response_request response))"
  obtain rd w1 where r: "RequestDispatcher_from F w scope (response_request response) = (rd, w1)"
    by (cases "RequestDispatcher_from F w scope (response_request response)")
  from assms have g1: "growsBy ?A w w1"
    using growsBy_RequestDispatcher_from [of F G "response_request response" w scope] r by simp
  from assms(2) have "response_guid response \<notin> ?A" by auto
  with growsBy_absent [OF g1 None] have none1: "existingDispatcher w1 (response_guid response) = None"
    by simp
  have "growsBy {response_guid response} w1 (snd (ResponseDispatcher_from F w scope response))"
    using None r growsBy_Dispatcher_new [OF none1]
    by (simp add: ResponseDispatcher_from_def ResponseDispatcher_new_def)
  with g1 show ?thesis by (blast intro: growsBy_trans)
qed

lemma growsBy_RouteDispatcher_from:
  assumes "frameFactoryAdds F G" and "wellFormedAction G (RouteFrom scope route)"
  shows "\<exists>A. growsBy A w (snd (RouteDispatcher_from F w scope route))"
proof (cases "existingDispatcher w (route_guid route)")
  case (Some d)
  then show ?thesis by (auto simp: RouteDispatcher_from_def intro: growsBy_refl)
next
  case None
  let ?A = "G \<union> set (chainGuids (route_request route))"
  obtain rd w1 where r: "RequestDispatcher_from F w scope (route_request route) = (rd, w1)"
    by (cases "RequestDispatcher_from F w scope (route_request route)")
  from assms have g1: "growsBy ?A w w1"
    using growsBy_RequestDispatcher_from [of F G "route_request route" w scope] r by simp
  from assms(2) have "route_guid route \<notin> ?A" by auto
  with growsBy_absent [OF g1 None] have none1: "existingDispatcher w1 (route_guid route) = None"
    by simp
  have "growsBy {route_guid route} w1 (snd (RouteDispatcher_from F w scope route))"
    using None r growsBy_Dispatcher_new [OF none1]
    by (simp add: RouteDispatcher_from_def RouteDispatcher_new_def)
  with g1 show ?thesis by (blast intro: growsBy_trans)
qed

lemma growsBy_server_step:
  assumes "frameFactoryAdds F G" and "wellFormedAction G a"
  shows "\<exists>A. growsBy A w (server_step F w a)"
proof (cases a)
  case (Lifecycle b)
  then show ?thesis using growsBy_step by simp
next
  case (RequestFrom scope request)
  with assms growsBy_RequestDispatcher_from [of F G request w scope] show ?thesis by auto
next
  case (ResponseFrom scope response)
  with assms growsBy_ResponseDispatcher_from [of F G scope response w] show ?thesis by simp
next
  case (RouteFrom scope route)
  with assms growsBy_RouteDispatcher_from [of F G scope route w] show ?thesis by simp
qed

lemma growsBy_server_run:
  assumes "frameFactoryAdds F G"
  shows "list_all (wellFormedAction G) acts \<Longrightarrow> \<exists>A. growsBy A w (server_run F w acts)"
  unfolding server_run_def
proof (induction acts arbitrary: w)
  case Nil
  show ?case by (auto intro: growsBy_refl)
next
  case (Cons a acts)
  from Cons.prems assms obtain A where a: "growsBy A w (server_step F w a)"
    using growsBy_server_step [of F G a w] by auto
  from Cons.prems Cons.IH [of "server_step F w a"]
  obtain B where b: "growsBy B (server_step F w a) (fold (\<lambda>a w'. server_step F w' a) acts
                        (server_step F w a))"
    by auto
  from growsBy_trans [OF a b] show ?case by auto
qed


text \<open>
  C4. Each of the four factories is idempotent. A second call for the same wrapped object,
  whatever the scopes passed, returns the dispatcher the first call returned and leaves
  the state as it is, so it makes no second dispatcher and sends no second \<open>__create__\<close>;
  the dispatcher returned carries the guid of the wrapped object and is the one
  \<open>existingDispatcher\<close> answers for it. The same holds at each later moment: after any
  sequence of events, disposals and calls of the four factories for well-formed objects,
  with a frame factory that only adds dispatchers for frames, a call for the same wrapped
  object returns that dispatcher, with the disposed flag it has by then, and changes
  nothing; and when no two dispatchers carry the same guid at the start, none do at any
  later moment.
\<close>

theorem from_idempotent:
  "(case RequestDispatcher_from F w scope request of
      (d, w') \<Rightarrow> guid d = request_guid request \<and>
                 existingDispatcher w' (request_guid request) = Some d \<and>
                 RequestDispatcher_from F w' scope' request = (d, w')) \<and>
   (case ResponseDispatcher_from F w scope response of
      (d, w') \<Rightarrow> guid d = response_guid response \<and>
                 existingDispatcher w' (response_guid response) = Some d \<and>
                 ResponseDispatcher_from F w' scope' response = (d, w')) \<and>
   (case RouteDispatcher_from F w scope route of
      (d, w') \<Rightarrow> guid d = route_guid route \<and>
                 existingDispatcher w' (route_guid route) = Some d \<and>
                 RouteDispatcher_from F w' scope' route = (d, w')) \<and>
   (case FetchRequestDispatcher_from w scope fetchRequest of
      (d, w') \<Rightarrow> guid d = fetchRequest_guid fetchRequest \<and>
                 existingDispatcher w' (fetchRequest_guid fetchRequest) = Some d \<and>
                 FetchRequestDispatcher_from w' scope' fetchRequest = (d, w')) \<and>
   (frameFactoryAdds F G \<and> list_all (wellFormedAction G) acts \<longrightarrow>
      (case RequestDispatcher_from F w scope request of
         (d, w1) \<Rightarrow>
           RequestDispatcher_from F (server_run F w1 acts) scope' request =
             (d\<lparr> disposed := disposedOf (server_run F w1 acts) (request_guid request) \<rparr>,
              server_run F w1 acts)) \<and>
      (case ResponseDispatcher_from F w scope response of
         (d, w1) \<Rightarrow>
           ResponseDispatcher_from F (server_run F w1 acts) scope' response =
             (d\<lparr> disposed := disposedOf (server_run F w1 acts) (response_guid response) \<rparr>,
              server_run F w1 acts)) \<and>
      (case RouteDispatcher_from F w scope route of
         (d, w1) \<Rightarrow>
           RouteDispatcher_from F (server_run F w1 acts) scope' route =
             (d\<lparr> disposed := disposedOf (server_run F w1 acts) (route_guid route) \<rparr>,
              server_run F w1 acts)) \<and>
      (case FetchRequestDispatcher_from w scope fetchRequest of
         (d, w1) \<Rightarrow>
           FetchRequestDispatcher_from (server_run F w1 acts) scope' fetchRequest =
             (d\<lparr> disposed := disposedOf (server_run F w1 acts) (fetchRequest_guid fetchRequest) \<rparr>,
              server_run F w1 acts)) \<and>
      (distinct (map guid (dispatchers w)) \<longrightarrow>
         distinct (map guid (dispatchers (server_run F w acts)))))"
proof (intro conjI impI)
  show "case RequestDispatcher_from F w scope request of
      (d, w') \<Rightarrow> guid d = request_guid request \<and>
                 existingDispatcher w' (request_guid request) = Some d \<and>
                 RequestDispatcher_from F w' scope' request = (d, w')"
    using RequestDispatcher_from_existing [of F w scope request]
    by (cases "RequestDispatcher_from F w scope request") simp
  show "case ResponseDispatcher_from F w scope response of
      (d, w') \<Rightarrow> guid d = response_guid response \<and>
                 existingDispatcher w' (response_guid response) = Some d \<and>
                 ResponseDispatcher_from F w' scope' response = (d, w')"
    using ResponseDispatcher_from_existing [of F w scope response]
    by (cases "ResponseDispatcher_from F w scope response")
       (simp add: ResponseDispatcher_from_def)
  show "case RouteDispatcher_from F w scope route of
      (d, w') \<Rightarrow> guid d = route_guid route \<and>
                 existingDispatcher w' (route_guid route) = Some d \<and>
                 RouteDispatcher_from F w' scope' route = (d, w')"
    using RouteDispatcher_from_existing [of F w scope route]
    by (cases "RouteDispatcher_from F w scope route")
       (simp add: RouteDispatcher_from_def)
  show "case FetchRequestDispatcher_from w scope fetchRequest of
      (d, w') \<Rightarrow> guid d = fetchRequest_guid fetchRequest \<and>
                 existingDispatcher w' (fetchRequest_guid fetchRequest) = Some d \<and>
                 FetchRequestDispatcher_from w' scope' fetchRequest = (d, w')"
    using FetchRequestDispatcher_from_existing [of w scope fetchRequest]
    by (cases "FetchRequestDispatcher_from w scope fetchRequest")
       (simp add: FetchRequestDispatcher_from_def)
next
  assume h: "frameFactoryAdds F G \<and> list_all (wellFormedAction G) acts"
  then have later: "\<exists>A. growsBy A w0 (server_run F w0 acts)" for w0
    using growsBy_server_run [of F G acts w0] by simp
  show "case RequestDispatcher_from F w scope request of
         (d, w1) \<Rightarrow>
           RequestDispatcher_from F (server_run F w1 acts) scope' request =
             (d\<lparr> disposed := disposedOf (server_run F w1 acts) (request_guid request) \<rparr>,
              server_run F w1 acts)"
  proof (cases "RequestDispatcher_from F w scope request")
    case (Pair d w1)
    from RequestDispatcher_from_existing [OF Pair]
    have "existingDispatcher w1 (request_guid request) = Some d" by simp
    with later [of w1] have "existingDispatcher (server_run F w1 acts) (request_guid request) =
        Some (d\<lparr> disposed := disposedOf (server_run F w1 acts) (request_guid request) \<rparr>)"
      by (auto dest: growsBy_existing)
    with Pair show ?thesis by simp
  qed
  show "case ResponseDispatcher_from F w scope response of
         (d, w1) \<Rightarrow>
           ResponseDispatcher_from F (server_run F w1 acts) scope' response =
             (d\<lparr> disposed := disposedOf (server_run F w1 acts) (response_guid response) \<rparr>,
              server_run F w1 acts)"
  proof (cases "ResponseDispatcher_from F w scope response")
    case (Pair d w1)
    from ResponseDispatcher_from_existing [OF Pair]
    have "existingDispatcher w1 (response_guid response) = Some d" by simp
    with later [of w1] have "existingDispatcher (server_run F w1 acts) (response_guid response) =
        Some (d\<lparr> disposed := disposedOf (server_run F w1 acts) (response_guid response) \<rparr>)"
      by (auto dest: growsBy_existing)
    with Pair show ?thesis by (simp add: ResponseDispatcher_from_def)
  qed
  show "case RouteDispatcher_from F w scope route of
         (d, w1) \<Rightarrow>
           RouteDispatcher_from F (server_run F w1 acts) scope' route =
             (d\<lparr> disposed := disposedOf (server_run F w1 acts) (route_guid route) \<rparr>,
              server_run F w1 acts)"
  proof (cases "RouteDispatcher_from F w scope route")
    case (Pair d w1)
    from RouteDispatcher_from_existing [OF Pair]
    have "existingDispatcher w1 (route_guid route) = Some d" by simp
    with later [of w1] have "existingDispatcher (server_run F w1 acts) (route_guid route) =
        Some (d\<lparr> disposed := disposedOf (server_run F w1 acts) (route_guid route) \<rparr>)"
      by (auto dest: growsBy_existing)
    with Pair show ?thesis by (simp add: RouteDispatcher_from_def)
  qed
  show "case FetchRequestDispatcher_from w scope fetchRequest of
         (d, w1) \<Rightarrow>
           FetchRequestDispatcher_from (server_run F w1 acts) scope' fetchRequest =
             (d\<lparr> disposed := disposedOf (server_run F w1 acts) (fetchRequest_guid fetchRequest) \<rparr>,
              server_run F w1 acts)"
  proof (cases "FetchRequestDispatcher_from w scope fetchRequest")
    case (Pair d w1)
    from FetchRequestDispatcher_from_existing [OF Pair]
    have "existingDispatcher w1 (fetchRequest_guid fetchRequest) = Some d" by simp
    with later [of w1]
    have "existingDispatcher (server_run F w1 acts) (fetchRequest_guid fetchRequest) =
        Some (d\<lparr> disposed := disposedOf (server_run F w1 acts) (fetchRequest_guid fetchRequest) \<rparr>)"
      by (auto dest: growsBy_existing)
    with Pair show ?thesis by (simp add: FetchRequestDispatcher_from_def)
  qed
  show "distinct (map guid (dispatchers (server_run F w acts)))"
    if "distinct (map guid (dispatchers w))"
    using later [of w] that by (auto dest: growsBy_distinct)
qed


section \<open>fetchResponseBody\<close>

text \<open>
  C10. \<open>fetchResponseBody\<close> always resolves, and for a \<open>fetchUid\<close> with no entry in the
  wrapped object's \<open>fetchResponses\<close> it resolves with \<open>binary\<close> undefined.
\<close>

theorem fetchResponseBody_missing:
  "(\<exists>r. fetchResponseBody object params = Inr r) \<and>
   (fetchResponses object (fetchUid params) = None \<longrightarrow>
      fetchResponseBody object params = Inr \<lparr> binary = None \<rparr>)"
  by (simp add: fetchResponseBody_def Let_def)

theorem fetchResponseBody_missing_witness:
  "fetchResponses example_fetchRequest ''b'' = None \<and>
   fetchResponseBody example_fetchRequest \<lparr> fetchUid = ''b'' \<rparr> = Inr \<lparr> binary = None \<rparr> \<and>
   fetchResponseBody example_fetchRequest \<lparr> fetchUid = ''a'' \<rparr> = Inr \<lparr> binary = Some ''TWFu'' \<rparr>"
proof -
  have a: "fetchResponses example_fetchRequest
             (fetchUid \<lparr> fetchUid = ''b'' \<rparr>) = None"
    by (simp add: example_fetchRequest_def)
  from a fetchResponseBody_missing [of example_fetchRequest "\<lparr> fetchUid = ''b'' \<rparr>"]
  have b: "fetchResponseBody example_fetchRequest \<lparr> fetchUid = ''b'' \<rparr> =
             Inr \<lparr> binary = None \<rparr>"
    by blast
  have c: "fetchResponseBody example_fetchRequest \<lparr> fetchUid = ''a'' \<rparr> =
             Inr \<lparr> binary = Some ''TWFu'' \<rparr>"
    by (simp add: fetchResponseBody_def example_fetchRequest_def toString_base64_def
          base64_alphabet_def)
  from a b c show ?thesis by simp
qed




section \<open>Events of a WebSocket\<close>

lemma WebSocketDispatcher_new_listeners:
  assumes "WebSocketDispatcher_new w scope ws = (this, w1)"
  shows "guid this = webSocket_guid ws \<and>
         listeners w1 = listeners w @ WebSocketDispatcher_listeners (webSocket_guid ws) (guid this)"
  using assms
  by (auto simp: WebSocketDispatcher_new_def Dispatcher_new_def Let_def emitter_on_def
        WebSocketDispatcher_listeners_def)

lemma emit_WebSocket:
  assumes "filter (\<lambda>l. emitter l = obj) (listeners w) = WebSocketDispatcher_listeners obj this"
  shows "emit w obj WebSocket_FrameSent e = w\<lparr> wire := wire w @ [EventMsg this ''frameSent'' e] \<rparr>"
    and "emit w obj WebSocket_FrameReceived e =
           w\<lparr> wire := wire w @ [EventMsg this ''frameReceived'' e] \<rparr>"
    and "emit w obj WebSocket_SocketError e =
           w\<lparr> wire := wire w @ [EventMsg this ''socketError'' (JObj [(''error'', e)])] \<rparr>"
    and "emit w obj WebSocket_Close e = w\<lparr> wire := wire w @ [EventMsg this ''close'' (JObj [])] \<rparr>"
proof -
  have called: "filter (\<lambda>l. emitter l = obj \<and> event l = ev) (listeners w) =
                  filter (\<lambda>l. event l = ev) (WebSocketDispatcher_listeners obj this)" for ev
  proof -
    have "filter (\<lambda>l. emitter l = obj \<and> event l = ev) (listeners w) =
            filter (\<lambda>l. event l = ev) (filter (\<lambda>l. emitter l = obj) (listeners w))"
      by (simp add: conj_commute)
    with assms show ?thesis by simp
  qed
  have "\<forall>l\<in>set (filter (\<lambda>l. emitter l = obj) (listeners w)). \<not> once l"
    unfolding assms by (simp add: WebSocketDispatcher_listeners_def)
  then have "\<forall>l\<in>set (listeners w). \<not> (emitter l = obj \<and> event l = ev \<and> once l)" for ev
    by auto
  then have kept: "filter (\<lambda>l. \<not> (emitter l = obj \<and> event l = ev \<and> once l)) (listeners w) =
                     listeners w" for ev
    by (simp add: filter_id_conv)
  show "emit w obj WebSocket_FrameSent e = w\<lparr> wire := wire w @ [EventMsg this ''frameSent'' e] \<rparr>"
    unfolding emit_def Let_def called kept
    by (simp add: WebSocketDispatcher_listeners_def Dispatcher_dispatchEvent_def)
  show "emit w obj WebSocket_FrameReceived e =
           w\<lparr> wire := wire w @ [EventMsg this ''frameReceived'' e] \<rparr>"
    unfolding emit_def Let_def called kept
    by (simp add: WebSocketDispatcher_listeners_def Dispatcher_dispatchEvent_def)
  show "emit w obj WebSocket_SocketError e =
           w\<lparr> wire := wire w @ [EventMsg this ''socketError'' (JObj [(''error'', e)])] \<rparr>"
    unfolding emit_def Let_def called kept
    by (simp add: WebSocketDispatcher_listeners_def Dispatcher_dispatchEvent_def)
  show "emit w obj WebSocket_Close e = w\<lparr> wire := wire w @ [EventMsg this ''close'' (JObj [])] \<rparr>"
    unfolding emit_def Let_def called kept
    by (simp add: WebSocketDispatcher_listeners_def Dispatcher_dispatchEvent_def)
qed

text \<open>
  C7. Let the dispatcher \<open>this\<close> be constructed on a WebSocket that had no listener, and
  take any later state in which the listeners on the WebSocket are still those the
  constructor registered. Then each event the WebSocket emits adds exactly one message to
  the wire and changes nothing else: \<open>FrameSent\<close> gives \<open>frameSent\<close> and \<open>FrameReceived\<close>
  gives \<open>frameReceived\<close>, both with the event object as it is, \<open>SocketError\<close> gives
  \<open>socketError\<close> with the parameters \<open>{error}\<close>, and \<open>Close\<close> gives \<open>close\<close> with empty
  parameters.
\<close>

theorem WebSocketDispatcher_events:
  assumes "WebSocketDispatcher_new w scope ws = (this, w1)"
    and "\<forall>l\<in>set (listeners w). emitter l \<noteq> webSocket_guid ws"
    and "filter (\<lambda>l. emitter l = webSocket_guid ws) (listeners w') =
         filter (\<lambda>l. emitter l = webSocket_guid ws) (listeners w1)"
  shows "emit w' (webSocket_guid ws) WebSocket_FrameSent e =
           w'\<lparr> wire := wire w' @ [EventMsg (guid this) ''frameSent'' e] \<rparr> \<and>
         emit w' (webSocket_guid ws) WebSocket_FrameReceived e =
           w'\<lparr> wire := wire w' @ [EventMsg (guid this) ''frameReceived'' e] \<rparr> \<and>
         emit w' (webSocket_guid ws) WebSocket_SocketError e =
           w'\<lparr> wire := wire w' @ [EventMsg (guid this) ''socketError'' (JObj [(''error'', e)])] \<rparr> \<and>
         emit w' (webSocket_guid ws) WebSocket_Close e =
           w'\<lparr> wire := wire w' @ [EventMsg (guid this) ''close'' (JObj [])] \<rparr>"
proof -
  from assms(1) have l1: "listeners w1 =
      listeners w @ WebSocketDispatcher_listeners (webSocket_guid ws) (guid this)"
    by (simp add: WebSocketDispatcher_new_listeners)
  from assms(2) have "filter (\<lambda>l. emitter l = webSocket_guid ws) (listeners w) = []"
    by (simp add: filter_empty_conv)
  with l1 have "filter (\<lambda>l. emitter l = webSocket_guid ws) (listeners w1) =
                  WebSocketDispatcher_listeners (webSocket_guid ws) (guid this)"
    by (simp add: WebSocketDispatcher_listeners_def)
  with assms(3) have "filter (\<lambda>l. emitter l = webSocket_guid ws) (listeners w') =
                  WebSocketDispatcher_listeners (webSocket_guid ws) (guid this)"
    by simp
  then show ?thesis by (simp add: emit_WebSocket)
qed

section \<open>The lifecycle of a dispatcher\<close>

lemma lifecycleKept_refl: "lifecycleKept g w w"
  by (auto simp: lifecycleKept_def)

lemma lifecycleKept_trans:
  "lifecycleKept g w w1 \<Longrightarrow> lifecycleKept g w1 w2 \<Longrightarrow> lifecycleKept g w w2"
  by (auto simp: lifecycleKept_def)

lemma lifecycleKept_eq:
  "disposedOf w' g = disposedOf w g \<Longrightarrow> disposeCount w' g = disposeCount w g \<Longrightarrow>
   lifecycleKept g w w'"
  by (auto simp: lifecycleKept_def disposedAtMostOnce_def)

lemma find_mark:
  "find (\<lambda>d. guid d = g) (map (\<lambda>x. if guid x = m then x\<lparr> disposed := True \<rparr> else x) ds) =
     map_option (\<lambda>x. if guid x = m then x\<lparr> disposed := True \<rparr> else x)
       (find (\<lambda>d. guid d = g) ds)"
  by (induction ds) auto

lemma lifecycleKept_disposeOne: "lifecycleKept g w (disposeOne w m)"
proof (cases "existingDispatcher w m")
  case None
  then show ?thesis by (simp add: disposeOne_def lifecycleKept_refl)
next
  case (Some d)
  show ?thesis
  proof (cases "disposed d")
    case True
    with Some show ?thesis by (simp add: disposeOne_def lifecycleKept_refl)
  next
    case False
    with Some have w': "disposeOne w m =
        w\<lparr> dispatchers :=
             map (\<lambda>x. if guid x = m then x\<lparr> disposed := True \<rparr> else x) (dispatchers w),
           wire := wire w @ [DisposeMsg m] \<rparr>"
      by (simp add: disposeOne_def)
    show ?thesis
    proof (cases "m = g")
      case True
      from Some False True have before: "\<not> disposedOf w g"
        by (simp add: disposedOf_def)
      from Some True existingDispatcher_guid [OF Some]
      have after: "disposedOf (disposeOne w m) g"
        unfolding w' by (simp add: disposedOf_def existingDispatcher_def find_mark)
      have cnt: "disposeCount (disposeOne w m) g = disposeCount w g + 1"
        unfolding w' using True by (simp add: disposeCount_def)
      from before after cnt show ?thesis
        by (auto simp: lifecycleKept_def disposedAtMostOnce_def)
    next
      case neq: False
      have "existingDispatcher (disposeOne w m) g = existingDispatcher w g"
      proof (cases "existingDispatcher w g")
        case None
        then show ?thesis unfolding w' by (simp add: existingDispatcher_def find_mark)
      next
        case (Some x)
        then have "guid x = g" by (auto simp: existingDispatcher_def find_Some_iff)
        with Some neq show ?thesis
          unfolding w' by (simp add: existingDispatcher_def find_mark)
      qed
      then have a: "disposedOf (disposeOne w m) g = disposedOf w g"
        by (simp add: disposedOf_def)
      have b: "disposeCount (disposeOne w m) g = disposeCount w g"
        unfolding w' using neq by (simp add: disposeCount_def)
      from a b show ?thesis by (rule lifecycleKept_eq)
    qed
  qed
qed

lemma lifecycleKept_fold_disposeOne:
  "lifecycleKept g w (fold (\<lambda>m w'. disposeOne w' m) ms w)"
proof (induction ms arbitrary: w)
  case Nil
  show ?case by (simp add: lifecycleKept_refl)
next
  case (Cons m ms)
  have "lifecycleKept g w (disposeOne w m)" by (rule lifecycleKept_disposeOne)
  moreover have "lifecycleKept g (disposeOne w m) (fold (\<lambda>m w'. disposeOne w' m) ms (disposeOne w m))"
    by (rule Cons.IH)
  ultimately show ?case by (auto intro: lifecycleKept_trans)
qed

lemma lifecycleKept_Dispatcher_dispose: "lifecycleKept g w (Dispatcher_dispose w g')"
  by (simp add: Dispatcher_dispose_def lifecycleKept_fold_disposeOne)

lemma lifecycleKept_dispatchEvent: "lifecycleKept g w (Dispatcher_dispatchEvent w this m params)"
  by (rule lifecycleKept_eq)
     (simp_all add: Dispatcher_dispatchEvent_def disposedOf_def existingDispatcher_def
        disposeCount_def)

lemma lifecycleKept_runHandler: "lifecycleKept g w (runHandler w h arg)"
  by (cases h)
     (simp_all add: lifecycleKept_dispatchEvent lifecycleKept_Dispatcher_dispose lifecycleKept_refl)

lemma lifecycleKept_fold_runHandler:
  "lifecycleKept g w (fold (\<lambda>l w'. runHandler w' (handler l) arg) ls w)"
proof (induction ls arbitrary: w)
  case Nil
  show ?case by (simp add: lifecycleKept_refl)
next
  case (Cons l ls)
  have "lifecycleKept g w (runHandler w (handler l) arg)" by (rule lifecycleKept_runHandler)
  moreover have "lifecycleKept g (runHandler w (handler l) arg)
      (fold (\<lambda>l w'. runHandler w' (handler l) arg) ls (runHandler w (handler l) arg))"
    by (rule Cons.IH)
  ultimately show ?case by (auto intro: lifecycleKept_trans)
qed

lemma lifecycleKept_listeners: "lifecycleKept g w (w\<lparr> listeners := ls \<rparr>)"
  by (rule lifecycleKept_eq) (simp_all add: disposedOf_def existingDispatcher_def disposeCount_def)

lemma lifecycleKept_emit: "lifecycleKept g w (emit w obj ev arg)"
  unfolding emit_def Let_def
  by (rule lifecycleKept_trans [OF lifecycleKept_listeners lifecycleKept_fold_runHandler])

lemma FetchRequestDispatcher_new_lifecycle:
  assumes "existingDispatcher w (fetchRequest_guid request) = None"
  shows "disposedOf (snd (FetchRequestDispatcher_new w scope request)) g = disposedOf w g"
    and "disposeCount (snd (FetchRequestDispatcher_new w scope request)) g = disposeCount w g"
proof -
  show "disposedOf (snd (FetchRequestDispatcher_new w scope request)) g = disposedOf w g"
  proof (cases "fetchRequest_guid request = g")
    case True
    with assms show ?thesis
      by (simp add: FetchRequestDispatcher_new_def Dispatcher_new_def Let_def emitter_once_def
            disposedOf_def existingDispatcher_def)
  next
    case False
    then show ?thesis
      by (simp add: FetchRequestDispatcher_new_def Dispatcher_new_def Let_def emitter_once_def
            disposedOf_def existingDispatcher_def)
  qed
  show "disposeCount (snd (FetchRequestDispatcher_new w scope request)) g = disposeCount w g"
    by (simp add: FetchRequestDispatcher_new_def Dispatcher_new_def Let_def emitter_once_def
          disposeCount_def)
qed

lemma lifecycleKept_from: "lifecycleKept g w (snd (FetchRequestDispatcher_from w scope request))"
proof (cases "existingDispatcher w (fetchRequest_guid request)")
  case None
  then show ?thesis
    by (simp add: FetchRequestDispatcher_from_def lifecycleKept_eq
          FetchRequestDispatcher_new_lifecycle)
next
  case (Some d)
  then show ?thesis by (simp add: FetchRequestDispatcher_from_def lifecycleKept_refl)
qed

lemma lifecycleKept_step: "lifecycleKept g w (step w a)"
  by (cases a)
     (simp_all add: lifecycleKept_emit lifecycleKept_Dispatcher_dispose lifecycleKept_from)

lemma lifecycleKept_run: "lifecycleKept g w (run w acts)"
  unfolding run_def
proof (induction acts arbitrary: w)
  case Nil
  show ?case by (simp add: lifecycleKept_refl)
next
  case (Cons a acts)
  have "lifecycleKept g w (step w a)" by (rule lifecycleKept_step)
  moreover have "lifecycleKept g (step w a) (fold (\<lambda>a w'. step w' a) acts (step w a))"
    by (rule Cons.IH)
  ultimately show ?case by (auto intro: lifecycleKept_trans)
qed

text \<open>
  C6. The listener a \<open>FetchRequestDispatcher\<close> registers for \<open>Dispose\<close> does nothing when
  its dispatcher is already disposed. Whatever happens next (events, disposals of any
  dispatcher, further factory calls), a disposed dispatcher stays disposed, and
  \<open>__dispose__\<close> is sent for a dispatcher once at most; in particular for a
  \<open>FetchRequestDispatcher\<close> from its construction on.
\<close>

theorem dispatcher_disposed_once:
  "(disposedOf w g \<longrightarrow> runHandler w (DisposeUnlessDisposed g) arg = w) \<and>
   (disposedOf w g \<longrightarrow> disposedOf (run w acts) g) \<and>
   (disposedAtMostOnce g w \<longrightarrow> disposeCount (run w acts) g \<le> 1) \<and>
   (existingDispatcher w (fetchRequest_guid request) = None \<and>
    disposeCount w (fetchRequest_guid request) = 0 \<longrightarrow>
      disposeCount (run (snd (FetchRequestDispatcher_new w scope request)) acts)
        (fetchRequest_guid request) \<le> 1)"
proof (intro conjI impI)
  assume "disposedOf w g"
  then show "runHandler w (DisposeUnlessDisposed g) arg = w" by simp
next
  assume "disposedOf w g"
  with lifecycleKept_run [of g w acts] show "disposedOf (run w acts) g"
    by (simp add: lifecycleKept_def)
next
  assume "disposedAtMostOnce g w"
  with lifecycleKept_run [of g w acts] have "disposedAtMostOnce g (run w acts)"
    by (simp add: lifecycleKept_def)
  then show "disposeCount (run w acts) g \<le> 1"
    by (simp add: disposedAtMostOnce_def split: if_splits)
next
  let ?g = "fetchRequest_guid request"
  let ?w0 = "snd (FetchRequestDispatcher_new w scope request)"
  assume h: "existingDispatcher w ?g = None \<and> disposeCount w ?g = 0"
  then have "disposeCount ?w0 ?g = 0"
    by (simp add: FetchRequestDispatcher_new_lifecycle)
  then have "disposedAtMostOnce ?g ?w0" by (simp add: disposedAtMostOnce_def)
  with lifecycleKept_run [of ?g ?w0 acts] have "disposedAtMostOnce ?g (run ?w0 acts)"
    by (simp add: lifecycleKept_def)
  then show "disposeCount (run ?w0 acts) ?g \<le> 1"
    by (simp add: disposedAtMostOnce_def split: if_splits)
qed



section \<open>The example world, evaluated\<close>



lemma example_new_webSocket:
  "WebSocketDispatcher_new example_world example_root example_webSocket =
     (\<lparr> guid = ''ws1'', dtype = ''WebSocket'', parentScope = Some ''root'', isScope = False,
        disposed = False \<rparr>,
      \<lparr> dispatchers = [\<lparr> guid = ''ws1'', dtype = ''WebSocket'', parentScope = Some ''root'',
                          isScope = False, disposed = False \<rparr>, example_root],
        wire = [CreateMsg ''ws1'' ''WebSocket'' (JObj [(''url'', JStr ''ws://host/'')])],
        listeners = WebSocketDispatcher_listeners ''ws1'' ''ws1'' \<rparr>)"
  by (simp add: WebSocketDispatcher_new_def Dispatcher_new_def Let_def emitter_on_def
        example_world_def example_webSocket_def example_root_def
        WebSocketDispatcher_listeners_def)

theorem WebSocketDispatcher_events_witness:
  "emit (snd (WebSocketDispatcher_new example_world example_root example_webSocket))
      ''ws1'' WebSocket_FrameSent example_frame_event =
   (snd (WebSocketDispatcher_new example_world example_root example_webSocket))
     \<lparr> wire := [CreateMsg ''ws1'' ''WebSocket'' (JObj [(''url'', JStr ''ws://host/'')]),
                EventMsg ''ws1'' ''frameSent'' example_frame_event] \<rparr> \<and>
   emit (snd (WebSocketDispatcher_new example_world example_root example_webSocket))
      ''ws1'' WebSocket_SocketError (JStr ''reset'') =
   (snd (WebSocketDispatcher_new example_world example_root example_webSocket))
     \<lparr> wire := [CreateMsg ''ws1'' ''WebSocket'' (JObj [(''url'', JStr ''ws://host/'')]),
                EventMsg ''ws1'' ''socketError'' (JObj [(''error'', JStr ''reset'')])] \<rparr>"
proof -
  let ?new = "WebSocketDispatcher_new example_world example_root example_webSocket"
  have a: "?new = (fst ?new, snd ?new)" by simp
  have b: "\<forall>l\<in>set (listeners example_world). emitter l \<noteq> webSocket_guid example_webSocket"
    by (simp add: example_world_def)
  have c: "filter (\<lambda>l. emitter l = webSocket_guid example_webSocket) (listeners (snd ?new)) =
           filter (\<lambda>l. emitter l = webSocket_guid example_webSocket) (listeners (snd ?new))"
    by simp
  have g: "webSocket_guid example_webSocket = ''ws1''" by (simp add: example_webSocket_def)
  have t: "guid (fst ?new) = ''ws1''" by (simp add: example_new_webSocket)
  have wr: "wire (snd ?new) = [CreateMsg ''ws1'' ''WebSocket'' (JObj [(''url'', JStr ''ws://host/'')])]"
    by (simp add: example_new_webSocket)
  from WebSocketDispatcher_events [OF a b c, of example_frame_event]
  have d: "emit (snd ?new) ''ws1'' WebSocket_FrameSent example_frame_event =
             (snd ?new)\<lparr> wire := wire (snd ?new) @ [EventMsg ''ws1'' ''frameSent'' example_frame_event] \<rparr>"
    unfolding g t by blast
  from WebSocketDispatcher_events [OF a b c, of "JStr ''reset''"]
  have e: "emit (snd ?new) ''ws1'' WebSocket_SocketError (JStr ''reset'') =
             (snd ?new)\<lparr> wire := wire (snd ?new) @
                [EventMsg ''ws1'' ''socketError'' (JObj [(''error'', JStr ''reset'')])] \<rparr>"
    unfolding g t by blast
  from d e show ?thesis unfolding wr by simp
qed

lemma example_created_eq:
  "example_created =
     \<lparr> dispatchers = [\<lparr> guid = ''fetch1'', dtype = ''FetchRequest'', parentScope = Some ''root'',
                          isScope = True, disposed = False \<rparr>, example_root],
       wire = [CreateMsg ''fetch1'' ''FetchRequest'' (JObj [])],
       listeners = [\<lparr> emitter = ''fetch1'', event = FetchRequest_Dispose, once = True,
                      handler = DisposeUnlessDisposed ''fetch1'' \<rparr>] \<rparr>"
  by (simp add: example_created_def FetchRequestDispatcher_new_def Dispatcher_new_def Let_def
        emitter_once_def example_world_def example_fetchRequest_def example_root_def)

lemma example_disposed_eq:
  "example_disposed =
     \<lparr> dispatchers = [\<lparr> guid = ''fetch1'', dtype = ''FetchRequest'', parentScope = Some ''root'',
                          isScope = True, disposed = True \<rparr>, example_root],
       wire = [CreateMsg ''fetch1'' ''FetchRequest'' (JObj []), DisposeMsg ''fetch1''],
       listeners = [] \<rparr>"
  by (simp add: example_disposed_def example_created_eq emit_def Let_def disposedOf_def
        existingDispatcher_def Dispatcher_dispose_def scopeMembers_def disposeOne_def
        example_root_def)

theorem dispatcher_disposed_once_witness:
  "disposedOf example_disposed ''fetch1'' \<and>
   runHandler example_disposed (DisposeUnlessDisposed ''fetch1'') JUndefined = example_disposed \<and>
   disposedOf (run example_disposed example_actions) ''fetch1'' \<and>
   disposeCount (run example_disposed example_actions) ''fetch1'' \<le> 1 \<and>
   disposeCount (run example_created example_actions) ''fetch1'' \<le> 1"
proof -
  have a: "disposedOf example_disposed ''fetch1''"
    by (simp add: example_disposed_eq disposedOf_def existingDispatcher_def)
  have b: "disposedAtMostOnce ''fetch1'' example_disposed"
    by (simp add: example_disposed_eq disposedAtMostOnce_def disposedOf_def
          existingDispatcher_def disposeCount_def)
  have c: "existingDispatcher example_world (fetchRequest_guid example_fetchRequest) = None \<and>
           disposeCount example_world (fetchRequest_guid example_fetchRequest) = 0"
    by (simp add: example_world_def example_fetchRequest_def example_root_def
          existingDispatcher_def disposeCount_def)
  have g: "fetchRequest_guid example_fetchRequest = ''fetch1''"
    by (simp add: example_fetchRequest_def)
  from a b dispatcher_disposed_once [of example_disposed "''fetch1''" JUndefined example_actions
      example_fetchRequest example_root]
  have d: "runHandler example_disposed (DisposeUnlessDisposed ''fetch1'') JUndefined =
             example_disposed \<and>
           disposedOf (run example_disposed example_actions) ''fetch1'' \<and>
           disposeCount (run example_disposed example_actions) ''fetch1'' \<le> 1"
    by blast
  from c dispatcher_disposed_once [of example_world "''fetch1''" JUndefined example_actions
      example_fetchRequest example_root]
  have e: "disposeCount (run example_created example_actions) ''fetch1'' \<le> 1"
    unfolding g example_created_def by blast
  from a d e show ?thesis by blast
qed

lemma example_run_count: "disposeCount (run example_created example_actions) ''fetch1'' = 1"
  by code_simp




lemma example_frame_factory_adds: "frameFactoryAdds example_frame_factory G"
  unfolding frameFactoryAdds_def
proof (intro allI impI)
  fix w scope f
  assume in_G: "frame_guid f \<in> G"
  show "growsBy G w (snd (example_frame_factory w scope f))"
  proof (cases "existingDispatcher w (frame_guid f)")
    case None
    from growsBy_Dispatcher_new [OF None, of scope "''Frame''" "JObj []" False] in_G
    have "growsBy G w (snd (Dispatcher_new w scope (frame_guid f) ''Frame'' (JObj []) False))"
      by (auto intro: growsBy_mono)
    with None show ?thesis by (simp add: example_frame_factory_def)
  next
    case (Some d)
    then show ?thesis by (simp add: example_frame_factory_def growsBy_refl)
  qed
qed

lemma example_server_actions_wellFormed:
  "list_all (wellFormedAction {''frame1''}) example_server_actions"
  by (simp add: example_server_actions_def example_route_def example_response_def
        example_request_def wellFormedRequest_def)

lemma example_first_Request:
  "fst (RequestDispatcher_from example_frame_factory example_world example_root example_request) =
     \<lparr> guid = ''req2'', dtype = ''Request'', parentScope = Some ''root'', isScope = False,
        disposed = False \<rparr>"
  by code_simp

lemma example_later_Request:
  "disposedOf
     (server_run example_frame_factory
        (snd (RequestDispatcher_from example_frame_factory example_world example_root example_request))
        example_server_actions) ''req2''"
  by code_simp

lemma example_first_Response:
  "fst (ResponseDispatcher_from example_frame_factory example_world example_root example_response) =
     \<lparr> guid = ''resp1'', dtype = ''Response'', parentScope = Some ''root'', isScope = False,
        disposed = False \<rparr>"
  by code_simp

lemma example_later_Response:
  "disposedOf
     (server_run example_frame_factory
        (snd (ResponseDispatcher_from example_frame_factory example_world example_root example_response))
        example_server_actions) ''resp1''"
  by code_simp

lemma example_first_Route:
  "fst (RouteDispatcher_from example_frame_factory example_world example_root example_route) =
     \<lparr> guid = ''route1'', dtype = ''Route'', parentScope = Some ''root'', isScope = False,
        disposed = False \<rparr>"
  by code_simp

lemma example_later_Route:
  "disposedOf
     (server_run example_frame_factory
        (snd (RouteDispatcher_from example_frame_factory example_world example_root example_route))
        example_server_actions) ''route1''"
  by code_simp

lemma example_first_FetchRequest:
  "fst (FetchRequestDispatcher_from example_world example_root example_fetchRequest) =
     \<lparr> guid = ''fetch1'', dtype = ''FetchRequest'', parentScope = Some ''root'', isScope = True,
        disposed = False \<rparr>"
  by code_simp

lemma example_later_FetchRequest:
  "disposedOf
     (server_run example_frame_factory
        (snd (FetchRequestDispatcher_from example_world example_root example_fetchRequest))
        example_server_actions) ''fetch1''"
  by code_simp

lemma example_later_guids:
  "map guid (dispatchers (server_run example_frame_factory example_world example_server_actions)) =
     [''fetch1'', ''resp1'', ''route1'', ''req2'', ''req1'', ''frame1'', ''root'']"
  by code_simp

theorem from_idempotent_witness:
  "RequestDispatcher_from example_frame_factory
     (server_run example_frame_factory
        (snd (RequestDispatcher_from example_frame_factory example_world example_root example_request))
        example_server_actions)
     example_root example_request =
     (\<lparr> guid = ''req2'', dtype = ''Request'', parentScope = Some ''root'', isScope = False,
        disposed = True \<rparr>,
      server_run example_frame_factory
        (snd (RequestDispatcher_from example_frame_factory example_world example_root example_request))
        example_server_actions) \<and>
   ResponseDispatcher_from example_frame_factory
     (server_run example_frame_factory
        (snd (ResponseDispatcher_from example_frame_factory example_world example_root example_response))
        example_server_actions)
     example_root example_response =
     (\<lparr> guid = ''resp1'', dtype = ''Response'', parentScope = Some ''root'', isScope = False,
        disposed = True \<rparr>,
      server_run example_frame_factory
        (snd (ResponseDispatcher_from example_frame_factory example_world example_root example_response))
        example_server_actions) \<and>
   RouteDispatcher_from example_frame_factory
     (server_run example_frame_factory
        (snd (RouteDispatcher_from example_frame_factory example_world example_root example_route))
        example_server_actions)
     example_root example_route =
     (\<lparr> guid = ''route1'', dtype = ''Route'', parentScope = Some ''root'', isScope = False,
        disposed = True \<rparr>,
      server_run example_frame_factory
        (snd (RouteDispatcher_from example_frame_factory example_world example_root example_route))
        example_server_actions) \<and>
   FetchRequestDispatcher_from
     (server_run example_frame_factory
        (snd (FetchRequestDispatcher_from example_world example_root example_fetchRequest))
        example_server_actions)
     example_root example_fetchRequest =
     (\<lparr> guid = ''fetch1'', dtype = ''FetchRequest'', parentScope = Some ''root'', isScope = True,
        disposed = True \<rparr>,
      server_run example_frame_factory
        (snd (FetchRequestDispatcher_from example_world example_root example_fetchRequest))
        example_server_actions) \<and>
   distinct (map guid (dispatchers example_world)) \<and>
   distinct (map guid (dispatchers
     (server_run example_frame_factory example_world example_server_actions))) \<and>
   map guid (dispatchers (server_run example_frame_factory example_world example_server_actions)) =
     [''fetch1'', ''resp1'', ''route1'', ''req2'', ''req1'', ''frame1'', ''root'']"
proof -
  have h: "frameFactoryAdds example_frame_factory {''frame1''} \<and>
           list_all (wellFormedAction {''frame1''}) example_server_actions"
    by (simp add: example_frame_factory_adds example_server_actions_wellFormed)
  have d0: "distinct (map guid (dispatchers example_world))"
    by (simp add: example_world_def example_root_def)
  note inst = from_idempotent [where F = example_frame_factory and G = "{''frame1''}"
      and acts = example_server_actions and w = example_world and scope = example_root
      and scope' = example_root and request = example_request and response = example_response
      and route = example_route and fetchRequest = example_fetchRequest]
  note later_calls = inst [THEN conjunct2, THEN conjunct2, THEN conjunct2, THEN conjunct2,
      THEN mp, OF h]
  note c = later_calls [THEN conjunct2, THEN conjunct2, THEN conjunct2, THEN conjunct2,
      THEN mp, OF d0]
  have g0: "request_guid example_request = ''req2''" by (simp add: example_request_def)
  from later_calls [THEN conjunct1]
  have e0: "RequestDispatcher_from example_frame_factory
     (server_run example_frame_factory
        (snd (RequestDispatcher_from example_frame_factory example_world example_root example_request))
        example_server_actions)
     example_root example_request =
     (\<lparr> guid = ''req2'', dtype = ''Request'', parentScope = Some ''root'', isScope = False,
        disposed = True \<rparr>,
      server_run example_frame_factory
        (snd (RequestDispatcher_from example_frame_factory example_world example_root example_request))
        example_server_actions)"
    unfolding g0 using example_first_Request example_later_Request
    by (simp add: case_prod_beta)
  have g1: "response_guid example_response = ''resp1''" by (simp add: example_response_def)
  from later_calls [THEN conjunct2, THEN conjunct1]
  have e1: "ResponseDispatcher_from example_frame_factory
     (server_run example_frame_factory
        (snd (ResponseDispatcher_from example_frame_factory example_world example_root example_response))
        example_server_actions)
     example_root example_response =
     (\<lparr> guid = ''resp1'', dtype = ''Response'', parentScope = Some ''root'', isScope = False,
        disposed = True \<rparr>,
      server_run example_frame_factory
        (snd (ResponseDispatcher_from example_frame_factory example_world example_root example_response))
        example_server_actions)"
    unfolding g1 using example_first_Response example_later_Response
    by (simp add: case_prod_beta)
  have g2: "route_guid example_route = ''route1''" by (simp add: example_route_def)
  from later_calls [THEN conjunct2, THEN conjunct2, THEN conjunct1]
  have e2: "RouteDispatcher_from example_frame_factory
     (server_run example_frame_factory
        (snd (RouteDispatcher_from example_frame_factory example_world example_root example_route))
        example_server_actions)
     example_root example_route =
     (\<lparr> guid = ''route1'', dtype = ''Route'', parentScope = Some ''root'', isScope = False,
        disposed = True \<rparr>,
      server_run example_frame_factory
        (snd (RouteDispatcher_from example_frame_factory example_world example_root example_route))
        example_server_actions)"
    unfolding g2 using example_first_Route example_later_Route
    by (simp add: case_prod_beta)
  have g3: "fetchRequest_guid example_fetchRequest = ''fetch1''" by (simp add: example_fetchRequest_def)
  from later_calls [THEN conjunct2, THEN conjunct2, THEN conjunct2, THEN conjunct1]
  have e3: "FetchRequestDispatcher_from
     (server_run example_frame_factory
        (snd (FetchRequestDispatcher_from example_world example_root example_fetchRequest))
        example_server_actions)
     example_root example_fetchRequest =
     (\<lparr> guid = ''fetch1'', dtype = ''FetchRequest'', parentScope = Some ''root'', isScope = True,
        disposed = True \<rparr>,
      server_run example_frame_factory
        (snd (FetchRequestDispatcher_from example_world example_root example_fetchRequest))
        example_server_actions)"
    unfolding g3 using example_first_FetchRequest example_later_FetchRequest
    by (simp add: case_prod_beta)
  from e0 e1 e2 e3 d0 c example_later_guids show ?thesis by blast
qed

section \<open>Ids of pending calls\<close>

lemma pendingWellFormed_new: "pendingWellFormed Connection_new"
  by (simp add: pendingWellFormed_def pendingIds_def Connection_new_def)

lemma sendMessageToServer_facts:
  assumes "sendMessageToServer c g m p t = (callId, c1)"
  shows "callId = lastId c + 1" and "lastId c1 = callId" and "pendingIds c1 = pendingIds c @ [callId]"
  using assms by (auto simp: sendMessageToServer_def Let_def pendingIds_def)

lemma sendMessageToServer_wellFormed:
  assumes "pendingWellFormed c" and "sendMessageToServer c g m p t = (callId, c1)"
  shows "pendingWellFormed c1" and "callId \<notin> set (pendingIds c)"
proof -
  note f = sendMessageToServer_facts [OF assms(2)]
  from assms(1) have le: "\<forall>i\<in>set (pendingIds c). i \<le> lastId c"
    by (simp add: pendingWellFormed_def list_all_iff)
  with f(1) show fresh: "callId \<notin> set (pendingIds c)" by auto
  from assms(1) fresh le f show "pendingWellFormed c1"
    by (auto simp: pendingWellFormed_def list_all_iff)
qed

lemma dispatch_facts:
  "lastId (dispatch c callId r) = lastId c"
  "pendingIds (dispatch c callId r) = filter (\<lambda>i. i \<noteq> callId) (pendingIds c)"
proof -
  show "lastId (dispatch c callId r) = lastId c"
    by (simp add: dispatch_def split: option.splits)
  show "pendingIds (dispatch c callId r) = filter (\<lambda>i. i \<noteq> callId) (pendingIds c)"
  proof (cases "find (\<lambda>e. call_id e = callId) (callbacks c)")
    case None
    then have "\<forall>e\<in>set (callbacks c). call_id e \<noteq> callId" by (simp add: find_None_iff)
    then have "filter (\<lambda>i. i \<noteq> callId) (pendingIds c) = pendingIds c"
      by (auto simp: pendingIds_def filter_id_conv)
    with None show ?thesis by (simp add: dispatch_def)
  next
    case (Some e)
    then show ?thesis by (simp add: dispatch_def pendingIds_def filter_map comp_def)
  qed
qed

lemma dispatch_wellFormed: "pendingWellFormed c \<Longrightarrow> pendingWellFormed (dispatch c callId r)"
  by (auto simp: pendingWellFormed_def dispatch_facts list_all_iff)

lemma client_run_invariant:
  assumes "pendingWellFormed c" and "client_run c acts = (ids, c')"
  shows "pendingWellFormed c' \<and> sorted_wrt (<) ids \<and> (\<forall>i\<in>set ids. lastId c < i \<and> i \<le> lastId c') \<and>
         lastId c \<le> lastId c' \<and> set (pendingIds c') \<subseteq> set (pendingIds c) \<union> set ids"
  using assms
proof (induction acts arbitrary: c ids c')
  case Nil
  then show ?case by simp
next
  case (Cons a acts)
  show ?case
  proof (cases a)
    case (Send g m p t)
    obtain callId c1 where s: "sendMessageToServer c g m p t = (callId, c1)"
      by (cases "sendMessageToServer c g m p t")
    obtain ids1 c2 where r: "client_run c1 acts = (ids1, c2)"
      by (cases "client_run c1 acts")
    from Cons.prems(2) Send s r have eq: "ids = callId # ids1" "c' = c2" by auto
    note f = sendMessageToServer_facts [OF s]
    from Cons.prems(1) s have wf1: "pendingWellFormed c1"
      by (rule sendMessageToServer_wellFormed)
    from Cons.IH [OF wf1 r]
    have ih: "pendingWellFormed c2" "sorted_wrt (<) ids1"
      "\<forall>i\<in>set ids1. lastId c1 < i \<and> i \<le> lastId c2" "lastId c1 \<le> lastId c2"
      "set (pendingIds c2) \<subseteq> set (pendingIds c1) \<union> set ids1"
      by auto
    from ih f eq show ?thesis by auto
  next
    case (Receive callId r)
    from Cons.prems(2) Receive have run: "client_run (dispatch c callId r) acts = (ids, c')"
      by simp
    from Cons.prems(1) have wf1: "pendingWellFormed (dispatch c callId r)"
      by (rule dispatch_wellFormed)
    from Cons.IH [OF wf1 run] show ?thesis
      by (auto simp: dispatch_facts)
  qed
qed

text \<open>
  C5. After any sequence of calls issued and responses received on a new connection: the
  ids allocated are strictly increasing in the order of the calls; no two pending entries
  share an id; every pending id is one that was allocated; and the id the next call gets
  is greater than every id allocated before and is not the id of a pending entry.
\<close>

theorem pending_ids_unique:
  "(case client_run Connection_new acts of
      (ids, c) \<Rightarrow>
        sorted_wrt (<) ids \<and>
        distinct (pendingIds c) \<and>
        set (pendingIds c) \<subseteq> set ids \<and>
        fst (sendMessageToServer c g m p stackTrace) = lastId c + 1 \<and>
        fst (sendMessageToServer c g m p stackTrace) \<notin> set (pendingIds c) \<and>
        list_all (\<lambda>i. i < fst (sendMessageToServer c g m p stackTrace)) ids)"
proof (cases "client_run Connection_new acts")
  case (Pair ids c)
  from client_run_invariant [OF pendingWellFormed_new Pair]
  have inv: "pendingWellFormed c" "sorted_wrt (<) ids"
    "\<forall>i\<in>set ids. lastId Connection_new < i \<and> i \<le> lastId c"
    "set (pendingIds c) \<subseteq> set (pendingIds Connection_new) \<union> set ids"
    by auto
  obtain callId c1 where s: "sendMessageToServer c g m p stackTrace = (callId, c1)"
    by (cases "sendMessageToServer c g m p stackTrace")
  note f = sendMessageToServer_facts [OF s]
  from inv(1) s have fresh: "callId \<notin> set (pendingIds c)"
    by (rule sendMessageToServer_wellFormed)
  from inv(3) f(1) have below: "list_all (\<lambda>i. i < callId) ids"
    by (auto simp: list_all_iff)
  from inv(4) have sub: "set (pendingIds c) \<subseteq> set ids"
    by (simp add: pendingIds_def Connection_new_def)
  from inv(1) have dist: "distinct (pendingIds c)" by (simp add: pendingWellFormed_def)
  from Pair inv(2) dist sub s f(1) fresh below show ?thesis by simp
qed

end
